theory Spec2Isabelle
  imports Complex_Main "HOL-Library.Word"
begin

section \<open>Data model of \<open>my_malloc.c\<close>\<close>

text \<open>
  Sizes are \<open>size_t\<close> and addresses are \<open>char*\<close> values of an LP64 target: both are 64-bit
  words, with C's wrap-around arithmetic. \<open>NULL\<close> is the address 0.
\<close>

type_synonym size_t = "64 word"
type_synonym ptr = "64 word"

definition NULL :: ptr where
  "NULL = 0"

definition TOTAL_SIZE :: int where
  "TOTAL_SIZE = 104857600"

definition NUM_SEGMENTS :: nat where
  "NUM_SEGMENTS = 5"

definition MIN_SPLIT_SIZE :: size_t where
  "MIN_SPLIT_SIZE = 32"

definition LARGE_SIZE :: size_t where
  "LARGE_SIZE = 4194304"


text \<open>
  \<open>struct block_header\<close>: \<open>size_t size; block_header *next, *prev; bool free; int segment_id\<close>.
  On LP64 the three 8-byte fields, the \<open>unsigned char\<close> flag, three bytes of padding and the
  4-byte \<open>int\<close> make \<open>sizeof(block_header) = 32\<close>.
  The fields \<open>size\<close> and \<open>next\<close> carry a suffix because the plain names are taken.
\<close>

record block_header =
  size_b :: size_t
  next_b :: ptr
  prev :: ptr
  free :: bool
  segment_id :: int

definition sizeof_block_header :: size_t where
  "sizeof_block_header = 32"

text \<open>
  \<open>struct segment\<close>, without the mutex and the condition variable: an operation is modelled
  as one uninterrupted step, so that no lock is ever observed held.
\<close>

record segment =
  size_s :: size_t
  start_ptr :: ptr
  free_list :: ptr

text \<open>
  The block headers that have been written into the backing region, by address. An address
  that holds no (intact) header maps to \<open>None\<close>.
\<close>

type_synonym heap = "ptr \<Rightarrow> block_header option"

text \<open>
  What a C execution can do other than return: fail an \<open>assert\<close>, dereference a pointer that
  is \<open>NULL\<close> or does not address a header, touch memory already handed back to the host, or
  exceed the number of loop iterations granted to a list traversal.
\<close>

datatype error = AssertFailed | InvalidPointer | UseAfterFree | OutOfFuel

definition ebind :: "error + 'a \<Rightarrow> ('a \<Rightarrow> error + 'b) \<Rightarrow> error + 'b" where
  "ebind m f = (case m of Inl e \<Rightarrow> Inl e | Inr x \<Rightarrow> f x)"

definition deref :: "heap \<Rightarrow> ptr \<Rightarrow> error + block_header" where
  "deref h p = (if p = NULL then Inl InvalidPointer
                else case h p of None \<Rightarrow> Inl InvalidPointer | Some b \<Rightarrow> Inr b)"

definition store :: "heap \<Rightarrow> ptr \<Rightarrow> (block_header \<Rightarrow> block_header) \<Rightarrow> error + heap" where
  "store h p f = ebind (deref h p) (\<lambda>b. Inr (h(p \<mapsto> f b)))"

section \<open>Best-fit search\<close>

text \<open>
  The \<open>while (current != NULL)\<close> loop of \<open>find_best_fit\<close>. It follows \<open>next\<close> pointers and
  does not return on a cyclic list, so the model counts iterations: \<open>fuel\<close> is the number
  of loop bodies that may run.
\<close>

fun find_best_fit_loop :: "nat \<Rightarrow> heap \<Rightarrow> ptr \<Rightarrow> ptr \<Rightarrow> size_t \<Rightarrow> error + ptr" where
  "find_best_fit_loop 0 h current best_fit sz =
     (if current = NULL then Inr best_fit else Inl OutOfFuel)"
| "find_best_fit_loop (Suc n) h current best_fit sz =
     (if current = NULL then Inr best_fit
      else case h current of None \<Rightarrow> Inl InvalidPointer
        | Some c \<Rightarrow>
          if free c \<and> sz \<le> size_b c then
            (if best_fit = NULL then find_best_fit_loop n h (next_b c) current sz
             else case h best_fit of None \<Rightarrow> Inl InvalidPointer
               | Some b \<Rightarrow>
                 if size_b c < size_b b then find_best_fit_loop n h (next_b c) current sz
                 else find_best_fit_loop n h (next_b c) best_fit sz)
          else find_best_fit_loop n h (next_b c) best_fit sz)"

definition find_best_fit :: "nat \<Rightarrow> heap \<Rightarrow> ptr \<Rightarrow> size_t \<Rightarrow> error + ptr" where
  "find_best_fit fuel h fl sz =
     (if 0 < sz then find_best_fit_loop fuel h fl NULL sz else Inl AssertFailed)"

text \<open>
  The list that starts at a pointer: \<open>chain h p bs\<close> holds when following \<open>next\<close> from \<open>p\<close>
  visits exactly the headers \<open>bs\<close>, in this order, and then reaches \<open>NULL\<close>.
\<close>

fun chain :: "heap \<Rightarrow> ptr \<Rightarrow> ptr list \<Rightarrow> bool" where
  "chain h p [] = (p = NULL)"
| "chain h p (x # xs) =
     (p = x \<and> x \<noteq> NULL \<and> (case h x of None \<Rightarrow> False | Some b \<Rightarrow> chain h (next_b b) xs))"

definition blk_size :: "heap \<Rightarrow> ptr \<Rightarrow> size_t" where
  "blk_size h p = (case h p of None \<Rightarrow> 0 | Some b \<Rightarrow> size_b b)"

definition blk_free :: "heap \<Rightarrow> ptr \<Rightarrow> bool" where
  "blk_free h p = (case h p of None \<Rightarrow> False | Some b \<Rightarrow> free b)"

text \<open>A listed block qualifies for a request when it is marked free and large enough.\<close>

definition fits :: "heap \<Rightarrow> size_t \<Rightarrow> ptr \<Rightarrow> bool" where
  "fits h sz p = (blk_free h p \<and> sz \<le> blk_size h p)"

text \<open>The footprint \<open>size + sizeof(block_header)\<close> that \<open>my_malloc\<close> searches for.\<close>

definition actual_size :: "size_t \<Rightarrow> size_t" where
  "actual_size sz = sz + sizeof_block_header"

section \<open>Initialization\<close>

text \<open>
  The segment sizes are computed in \<open>double\<close> and converted to \<open>size_t\<close>. For the constants
  of this program the double arithmetic is exact (the products of 104857600 with the doubles
  nearest to 0.2 and 0.8 round to the integers 20971520 and 83886080), so the macros are
  modelled over the rationals; the conversion to \<open>size_t\<close> drops the fraction.
\<close>

definition SEG_1_TO_4_SIZE :: rat where
  "SEG_1_TO_4_SIZE = (of_int TOTAL_SIZE * (20 / 100)) / of_nat (NUM_SEGMENTS - 1)"

definition SEG_5_SIZE :: rat where
  "SEG_5_SIZE = of_int TOTAL_SIZE * (80 / 100)"

definition size_t_of_double :: "rat \<Rightarrow> size_t" where
  "size_t_of_double x = word_of_int \<lfloor>x\<rfloor>"

text \<open>
  What the program's surroundings answer during one call: the two host \<open>malloc\<close> results of
  \<open>initialize_allocator\<close> (the address of the backing region, \<open>NULL\<close> on failure, and whether
  the segment array could be allocated), the value of \<open>time(NULL)\<close>, and the return codes of
  the successive \<open>pthread_cond_timedwait\<close> calls. Once the listed codes are used up the
  deadline has passed and the call returns \<open>ETIMEDOUT\<close>.
\<close>

record env =
  host_base :: ptr
  host_segments :: bool
  time_now :: int
  cond_rcs :: "int list"

record timespec =
  tv_sec :: int
  tv_nsec :: int

text \<open>
  The file-scope variables \<open>base_ptr\<close> and \<open>segments\<close> (\<open>None\<close> is \<open>NULL\<close>), the function-scope
  statics \<open>current_segment\<close> and \<open>initialized\<close> of \<open>my_malloc\<close>, and the headers in memory.
  Two fields are bookkeeping of the model: \<open>released\<close> records that \<open>free_base_memory\<close> has
  handed the region and the segment array back to the host, and \<open>cond_log\<close> lists the
  deadlines of the \<open>pthread_cond_timedwait\<close> calls made so far.
\<close>

record state =
  memory :: heap
  base_ptr :: ptr
  segments :: "segment list option"
  current_segment :: nat
  initialized :: bool
  released :: bool
  cond_log :: "timespec list"

definition fresh :: state where
  "fresh = \<lparr>memory = (\<lambda>_. None), base_ptr = NULL, segments = None, current_segment = 0,
            initialized = False, released = False, cond_log = []\<rparr>"

text \<open>
  Writing the first field of a header at an address that may not hold one yet. The bytes
  found there are the header already at this address, if any; otherwise they are
  indeterminate, and the model reads them as zero (every field is assigned by the code
  before it is read). A header at another address that shares bytes with the new one is
  no longer intact.
\<close>

definition overlaps :: "ptr \<Rightarrow> ptr \<Rightarrow> bool" where
  "overlaps p q \<longleftrightarrow> p \<noteq> q \<and> (p - q < sizeof_block_header \<or> q - p < sizeof_block_header)"

definition bytes_at :: "heap \<Rightarrow> ptr \<Rightarrow> block_header" where
  "bytes_at h p = (case h p of Some b \<Rightarrow> b
     | None \<Rightarrow> \<lparr>size_b = 0, next_b = NULL, prev = NULL, free = False, segment_id = 0\<rparr>)"

definition put :: "heap \<Rightarrow> ptr \<Rightarrow> block_header \<Rightarrow> heap" where
  "put h p b = (\<lambda>q. if q = p then Some b else if overlaps q p then None else h q)"

definition place :: "heap \<Rightarrow> ptr \<Rightarrow> (block_header \<Rightarrow> block_header) \<Rightarrow> error + heap" where
  "place h p f =
     (if p = NULL then Inl InvalidPointer else Inr (put h p (f (bytes_at h p))))"

text \<open>The body of the \<open>for\<close> loop of \<open>initialize_allocator\<close>, for the indices listed.\<close>

fun init_segments :: "nat list \<Rightarrow> ptr \<Rightarrow> heap \<Rightarrow> error + (segment list \<times> heap)" where
  "init_segments [] allocation_iterator h = Inr ([], h)"
| "init_segments (i # rest) allocation_iterator h =
     (let segment_size = (if i < NUM_SEGMENTS - 1 then size_t_of_double SEG_1_TO_4_SIZE
                          else size_t_of_double SEG_5_SIZE);
          seg = \<lparr>size_s = segment_size, start_ptr = allocation_iterator,
                 free_list = allocation_iterator\<rparr>
      in ebind (place h (free_list seg)
                 (\<lambda>b. b\<lparr>size_b := segment_size - sizeof_block_header, next_b := NULL,
                         prev := NULL, free := True, segment_id := int i\<rparr>))
         (\<lambda>h1. ebind (init_segments rest (allocation_iterator + segment_size) h1)
            (\<lambda>(segs, h2). Inr (seg # segs, h2))))"

definition initialize_allocator :: "env \<Rightarrow> state \<Rightarrow> error + (segment list option \<times> state)" where
  "initialize_allocator e st =
     (let st1 = st\<lparr>base_ptr := host_base e\<rparr> in
      if base_ptr st1 = NULL then Inr (None, st1)
      else if \<not> host_segments e then Inr (None, st1)
      else ebind (init_segments [0..<NUM_SEGMENTS] (base_ptr st1) (memory st1))
             (\<lambda>(new_segments, h). Inr (Some new_segments, st1\<lparr>memory := h\<rparr>)))"

section \<open>Split and merge\<close>

text \<open>\<open>split_block\<close>, statement by statement; every read goes back to memory.\<close>

definition split_block :: "heap \<Rightarrow> segment \<Rightarrow> ptr \<Rightarrow> size_t \<Rightarrow> error + (heap \<times> segment)" where
  "split_block h seg block sz =
     (if block = NULL \<or> \<not> 0 < sz then Inl AssertFailed
      else ebind (deref h block) (\<lambda>b.
        if MIN_SPLIT_SIZE + sizeof_block_header \<le> size_b b - sz then
          (let new_block = block + sizeof_block_header + sz in
           ebind (place h new_block (\<lambda>n. n\<lparr>free := True\<rparr>)) (\<lambda>h.
           ebind (deref h block) (\<lambda>b.
           ebind (store h new_block (\<lambda>n. n\<lparr>size_b := size_b b - sz - sizeof_block_header\<rparr>)) (\<lambda>h.
           ebind (deref h block) (\<lambda>b.
           ebind (store h new_block (\<lambda>n. n\<lparr>next_b := next_b b\<rparr>)) (\<lambda>h.
           ebind (deref h new_block) (\<lambda>n.
           ebind (if next_b n \<noteq> NULL
                  then ebind (deref h block) (\<lambda>b. store h (next_b b) (\<lambda>x. x\<lparr>prev := new_block\<rparr>))
                  else Inr h) (\<lambda>h.
           ebind (store h new_block (\<lambda>n. n\<lparr>prev := block\<rparr>)) (\<lambda>h.
           ebind (store h block (\<lambda>b. b\<lparr>next_b := new_block\<rparr>)) (\<lambda>h.
           ebind (deref h block) (\<lambda>b.
           ebind (store h new_block (\<lambda>n. n\<lparr>segment_id := segment_id b\<rparr>)) (\<lambda>h.
           ebind (store h block (\<lambda>b. b\<lparr>size_b := sz\<rparr>)) (\<lambda>h.
           ebind (store h block (\<lambda>b. b\<lparr>free := False\<rparr>)) (\<lambda>h.
           ebind (deref h block) (\<lambda>b.
           ebind (if prev b \<noteq> NULL then store h (prev b) (\<lambda>x. x\<lparr>next_b := next_b b\<rparr>)
                  else Inr h) (\<lambda>h.
           ebind (deref h block) (\<lambda>b.
           ebind (if next_b b \<noteq> NULL then store h (next_b b) (\<lambda>x. x\<lparr>prev := prev b\<rparr>)
                  else Inr h) (\<lambda>h.
           ebind (deref h block) (\<lambda>b.
           Inr (h, if free_list seg = block then seg\<lparr>free_list := next_b b\<rparr> else seg)
           )))))))))))))))))))
        else Inr (h, seg)))"

text \<open>\<open>merge_blocks\<close>, statement by statement.\<close>

definition merge_blocks :: "heap \<Rightarrow> ptr \<Rightarrow> ptr \<Rightarrow> error + heap" where
  "merge_blocks h block1 block2 =
     (if block1 = NULL \<or> block2 = NULL then Inl AssertFailed
      else ebind (deref h block1) (\<lambda>b1. ebind (deref h block2) (\<lambda>b2.
        if \<not> (free b1 \<and> free b2) then Inl AssertFailed
        else if block1 + sizeof_block_header + size_b b1 \<noteq> block2 then Inl AssertFailed
        else
          ebind (if prev b2 \<noteq> NULL then store h (prev b2) (\<lambda>x. x\<lparr>next_b := next_b b2\<rparr>)
                 else Inr h) (\<lambda>h.
          ebind (deref h block2) (\<lambda>b2.
          ebind (if next_b b2 \<noteq> NULL then store h (next_b b2) (\<lambda>x. x\<lparr>prev := prev b2\<rparr>)
                 else Inr h) (\<lambda>h.
          ebind (deref h block2) (\<lambda>b2.
          ebind (store h block1 (\<lambda>b1. b1\<lparr>size_b := size_b b1 + (size_b b2 + sizeof_block_header)\<rparr>)) (\<lambda>h.
          ebind (deref h block2) (\<lambda>b2.
          ebind (store h block1 (\<lambda>b1. b1\<lparr>next_b := next_b b2\<rparr>)) (\<lambda>h.
          ebind (deref h block2) (\<lambda>b2.
          if next_b b2 \<noteq> NULL then store h (next_b b2) (\<lambda>x. x\<lparr>prev := block1\<rparr>)
          else Inr h)))))))))))"

section \<open>Timed wait\<close>

definition MAX_WAIT_TIME :: rat where
  "MAX_WAIT_TIME = 1 / 10"

definition ETIMEDOUT :: int where
  "ETIMEDOUT = 110"

text \<open>The cast \<open>(time_t) MAX_WAIT_TIME\<close>: conversion to an integer type truncates towards zero.\<close>

definition time_t_of_double :: "rat \<Rightarrow> int" where
  "time_t_of_double x = (if 0 \<le> x then \<lfloor>x\<rfloor> else \<lceil>x\<rceil>)"

text \<open>The \<open>timeout\<close> that \<open>wait_for_free_block\<close> fills in from \<open>start_time\<close>.\<close>

definition wait_deadline :: "int \<Rightarrow> timespec" where
  "wait_deadline start_time =
     \<lparr>tv_sec = start_time + time_t_of_double MAX_WAIT_TIME, tv_nsec = 0\<rparr>"

text \<open>
  The \<open>while (1)\<close> loop of \<open>wait_for_free_block\<close>. Its arguments are the pending return codes
  of \<open>pthread_cond_timedwait\<close> and the number of such calls made so far; it returns the
  block, the return codes left over and the number of calls.
\<close>

fun wait_loop :: "nat \<Rightarrow> heap \<Rightarrow> ptr \<Rightarrow> size_t \<Rightarrow> int list \<Rightarrow> nat \<Rightarrow> error + (ptr \<times> int list \<times> nat)" where
  "wait_loop fuel h fl sz [] k =
     ebind (find_best_fit fuel h fl sz) (\<lambda>block.
       if block \<noteq> NULL \<or> of_int TOTAL_SIZE < sz then Inr (block, [], k)
       else Inr (block, [], Suc k))"
| "wait_loop fuel h fl sz (rc # rcs) k =
     ebind (find_best_fit fuel h fl sz) (\<lambda>block.
       if block \<noteq> NULL \<or> of_int TOTAL_SIZE < sz then Inr (block, rc # rcs, k)
       else if rc = ETIMEDOUT then Inr (block, rcs, Suc k)
       else wait_loop fuel h fl sz rcs (Suc k))"

definition wait_for_free_block ::
  "nat \<Rightarrow> heap \<Rightarrow> segment \<Rightarrow> size_t \<Rightarrow> int \<Rightarrow> int list \<Rightarrow> error + (ptr \<times> int list \<times> timespec list)" where
  "wait_for_free_block fuel h seg sz start_time rcs =
     (if \<not> 0 < sz \<or> free_list seg = NULL then Inl AssertFailed
      else let timeout = wait_deadline start_time in
        ebind (wait_loop fuel h (free_list seg) sz rcs 0)
          (\<lambda>(block, rcs', k). Inr (block, rcs', replicate k timeout)))"

section \<open>The three operations\<close>

text \<open>Reading through the global \<open>segments\<close> pointer.\<close>

definition segment_array :: "state \<Rightarrow> error + segment list" where
  "segment_array st =
     (if released st then Inl UseAfterFree
      else case segments st of None \<Rightarrow> Inl InvalidPointer | Some segs \<Rightarrow> Inr segs)"

definition segment_at :: "segment list \<Rightarrow> nat \<Rightarrow> error + segment" where
  "segment_at segs i = (if i < length segs then Inr (segs ! i) else Inl InvalidPointer)"

text \<open>
  The loop \<open>for (i = 0; i < NUM_SEGMENTS-1; i++)\<close> of \<open>my_malloc\<close> over the small segments;
  it returns the block, the segment it was found in, and the deadlines waited for.
\<close>

fun wait_small_segments ::
  "nat \<Rightarrow> heap \<Rightarrow> segment list \<Rightarrow> nat list \<Rightarrow> nat \<Rightarrow> size_t \<Rightarrow> int \<Rightarrow> int list \<Rightarrow> timespec list
     \<Rightarrow> error + (ptr \<times> nat \<times> timespec list)" where
  "wait_small_segments fuel h segs [] seg_id sz start_time rcs lg = Inr (NULL, seg_id, lg)"
| "wait_small_segments fuel h segs (i # rest) seg_id sz start_time rcs lg =
     ebind (segment_at segs i) (\<lambda>seg.
     ebind (wait_for_free_block fuel h seg sz start_time rcs) (\<lambda>(block, rcs', ws).
       if block \<noteq> NULL then Inr (block, i, lg @ ws)
       else wait_small_segments fuel h segs rest seg_id sz start_time rcs' (lg @ ws)))"

text \<open>
  The end of \<open>my_malloc\<close>, common to the first-try hit and to a hit after waiting:
  \<open>split_block(segments + seg_id, block, size)\<close> and then \<open>block->free = FALSE\<close>.
\<close>

definition take_block :: "heap \<Rightarrow> segment \<Rightarrow> ptr \<Rightarrow> size_t \<Rightarrow> error + (heap \<times> segment)" where
  "take_block h seg block sz =
     ebind (split_block h seg block sz) (\<lambda>(h, seg).
     ebind (store h block (\<lambda>b. b\<lparr>free := False\<rparr>)) (\<lambda>h. Inr (h, seg)))"

text \<open>
  \<open>my_malloc\<close>. The result is the returned pointer and the state after the call.
\<close>

definition my_malloc :: "nat \<Rightarrow> env \<Rightarrow> state \<Rightarrow> size_t \<Rightarrow> error + (ptr \<times> state)" where
  "my_malloc fuel e st sz =
     (let actual = actual_size sz in
      if \<not> 0 < sz then Inl AssertFailed
      else
        ebind (if \<not> initialized st
               then ebind (initialize_allocator e st) (\<lambda>(segs, st1).
                      Inr (st1\<lparr>segments := segs, initialized := (segs \<noteq> None)\<rparr>))
               else Inr st) (\<lambda>st.
        if \<not> initialized st then Inr (NULL, st)
        else
          let seg_id = current_segment st;
              st = st\<lparr>current_segment := (current_segment st + 1) mod (NUM_SEGMENTS - 1)\<rparr>
          in
          ebind (segment_array st) (\<lambda>segs.
          ebind (segment_at segs seg_id) (\<lambda>seg.
          ebind (find_best_fit fuel (memory st) (free_list seg) actual) (\<lambda>block.
          ebind
            (if block \<noteq> NULL then Inr (block, seg_id, st)
             else
               ebind
                 (if sz \<le> LARGE_SIZE
                  then wait_small_segments fuel (memory st) segs [0..<NUM_SEGMENTS - 1] seg_id
                         actual (time_now e) (cond_rcs e) []
                  else ebind (segment_at segs (NUM_SEGMENTS - 1)) (\<lambda>seg.
                       ebind (wait_for_free_block fuel (memory st) seg actual (time_now e) (cond_rcs e))
                         (\<lambda>(block, rcs', ws).
                            Inr (block, if block \<noteq> NULL then NUM_SEGMENTS - 1 else seg_id, ws))))
                 (\<lambda>(block, seg_id, ws).
                    let st = st\<lparr>cond_log := cond_log st @ ws\<rparr> in
                    if block = NULL then Inr (NULL, seg_id, st)
                    else ebind (store (memory st) block (\<lambda>b. b\<lparr>segment_id := int seg_id\<rparr>))
                           (\<lambda>h. Inr (block, seg_id, st\<lparr>memory := h\<rparr>))))
            (\<lambda>(block, seg_id, st).
               if block = NULL then Inr (NULL, st)
               else
                 ebind (segment_at segs seg_id) (\<lambda>seg.
                 ebind (take_block (memory st) seg block sz) (\<lambda>(h, seg).
                 Inr (block + sizeof_block_header,
                      st\<lparr>memory := h, segments := Some (segs[seg_id := seg])\<rparr>)))))))))"

text \<open>\<open>my_free\<close>. The \<open>&&\<close> chains read a neighbour only after its pointer tested non-null.\<close>

definition my_free :: "state \<Rightarrow> ptr \<Rightarrow> error + state" where
  "my_free st p =
     (if p = NULL then Inr st
      else
        let hdr = p - sizeof_block_header in
        ebind (segment_array st) (\<lambda>segs.
        ebind (deref (memory st) hdr) (\<lambda>b.
        ebind (if 0 \<le> segment_id b then segment_at segs (nat (segment_id b))
               else Inl InvalidPointer) (\<lambda>seg.
        ebind (store (memory st) hdr (\<lambda>b. b\<lparr>free := True\<rparr>)) (\<lambda>h.
        ebind (deref h hdr) (\<lambda>b.
        ebind
          (if prev b \<noteq> NULL
           then ebind (deref h (prev b)) (\<lambda>pb.
                  if free pb \<and> prev b + sizeof_block_header + size_b pb = hdr
                  then ebind (merge_blocks h (prev b) hdr) (\<lambda>h.
                       ebind (deref h hdr) (\<lambda>b. Inr (h, prev b)))
                  else Inr (h, hdr))
           else Inr (h, hdr)) (\<lambda>(h, hdr).
        ebind (deref h hdr) (\<lambda>b.
        ebind
          (if next_b b \<noteq> NULL
           then ebind (deref h (next_b b)) (\<lambda>nb.
                  if free nb \<and> hdr + sizeof_block_header + size_b b = next_b b
                  then merge_blocks h hdr (next_b b)
                  else Inr h)
           else Inr h) (\<lambda>h.
        Inr (st\<lparr>memory := h\<rparr>))))))))))"

text \<open>
  \<open>free_base_memory\<close>: the loop reads through \<open>segments\<close>, then both regions go back to the
  host. Neither pointer is cleared and \<open>initialized\<close> is a static of \<open>my_malloc\<close>, out of reach.
\<close>

definition free_base_memory :: "state \<Rightarrow> error + state" where
  "free_base_memory st = ebind (segment_array st) (\<lambda>segs. Inr (st\<lparr>released := True\<rparr>))"

section \<open>Observations used by the properties\<close>

text \<open>
  A doubly-linked list: \<open>dlist h before p bs\<close> holds when \<open>bs\<close> is the list that starts at
  \<open>p\<close>, the \<open>prev\<close> link of its first block is \<open>before\<close>, and the \<open>prev\<close> link of every
  other block is the block listed just before it.
\<close>

fun dlist :: "heap \<Rightarrow> ptr \<Rightarrow> ptr \<Rightarrow> ptr list \<Rightarrow> bool" where
  "dlist h before p [] = (p = NULL)"
| "dlist h before p (x # xs) =
     (p = x \<and> x \<noteq> NULL \<and>
      (case h x of None \<Rightarrow> False | Some b \<Rightarrow> prev b = before \<and> dlist h x (next_b b) xs))"

text \<open>
  The physical sequence of blocks between two addresses: the right neighbour of the block
  at \<open>p\<close> starts at \<open>p + sizeof(block_header) + size\<close>. The result is \<open>None\<close> when the walk
  meets an address without header or does not arrive within \<open>fuel\<close> blocks.
\<close>

fun phys_blocks :: "nat \<Rightarrow> heap \<Rightarrow> ptr \<Rightarrow> ptr \<Rightarrow> ptr list option" where
  "phys_blocks 0 h p e = (if p = e then Some [] else None)"
| "phys_blocks (Suc n) h p e =
     (if p = e then Some []
      else case h p of None \<Rightarrow> None
        | Some b \<Rightarrow> map_option ((#) p) (phys_blocks n h (p + sizeof_block_header + size_b b) e))"

text \<open>The header that \<open>initialize_allocator\<close> writes at the start of segment \<open>i\<close>.\<close>

definition initial_header :: "size_t \<Rightarrow> int \<Rightarrow> block_header" where
  "initial_header segment_size i =
     \<lparr>size_b = segment_size - sizeof_block_header, next_b = NULL, prev = NULL, free = True,
      segment_id = i\<rparr>"

text \<open>
  Whether the byte ranges \<open>[p, p + s)\<close> and \<open>[q, q + t)\<close> intersect, and whether \<open>[p, p + s)\<close>
  lies inside the backing region that starts at \<open>base\<close>.
\<close>

definition payload_overlap :: "ptr \<Rightarrow> size_t \<Rightarrow> ptr \<Rightarrow> size_t \<Rightarrow> bool" where
  "payload_overlap p s q t \<longleftrightarrow> unat p < unat q + unat t \<and> unat q < unat p + unat s"

definition in_region :: "ptr \<Rightarrow> ptr \<Rightarrow> size_t \<Rightarrow> bool" where
  "in_region base p s \<longleftrightarrow> unat base \<le> unat p \<and> unat p + unat s \<le> unat base + nat TOTAL_SIZE"

section \<open>Sequences of calls\<close>

text \<open>
  A single-threaded client: \<open>Malloc s\<close> calls \<open>my_malloc(s)\<close>, \<open>Free i\<close> calls \<open>my_free\<close> on the
  pointer that the \<open>i\<close>-th \<open>my_malloc\<close> call (counted from 0) returned, \<open>Teardown\<close> calls
  \<open>free_base_memory\<close>. \<open>run\<close> threads the state through the calls and collects the
  returned pointers.
\<close>

datatype op = Malloc size_t | Free nat | Teardown

fun run :: "nat \<Rightarrow> env \<Rightarrow> op list \<Rightarrow> ptr list \<times> state \<Rightarrow> error + (ptr list \<times> state)" where
  "run fuel e [] (ps, st) = Inr (ps, st)"
| "run fuel e (Malloc sz # ops) (ps, st) =
     ebind (my_malloc fuel e st sz) (\<lambda>(p, st'). run fuel e ops (ps @ [p], st'))"
| "run fuel e (Free i # ops) (ps, st) =
     (if i < length ps then ebind (my_free st (ps ! i)) (\<lambda>st'. run fuel e ops (ps, st'))
      else Inl InvalidPointer)"
| "run fuel e (Teardown # ops) (ps, st) =
     ebind (free_base_memory st) (\<lambda>st'. run fuel e ops (ps, st'))"

text \<open>
  What is looked at after a run: the pointers returned, the headers at the addresses asked
  for, the head of every segment's free list, the physical sequence of blocks of every
  segment, and the deadlines of the timed waits made.
\<close>

record snapshot =
  returned :: "ptr list"
  headers :: "(ptr \<times> block_header option) list"
  heads :: "ptr list"
  blocks :: "ptr list option list"
  waits :: "timespec list"

definition snap :: "ptr list \<Rightarrow> error + (ptr list \<times> state) \<Rightarrow> error + snapshot" where
  "snap addrs r =
     (case r of Inl e \<Rightarrow> Inl e
      | Inr (ps, st) \<Rightarrow>
          Inr \<lparr>returned = ps,
               headers = map (\<lambda>a. (a, memory st a)) addrs,
               heads = (case segments st of None \<Rightarrow> [] | Some segs \<Rightarrow> map free_list segs),
               blocks = (case segments st of None \<Rightarrow> []
                 | Some segs \<Rightarrow>
                     map (\<lambda>seg. phys_blocks 8 (memory st) (start_ptr seg)
                                  (start_ptr seg + size_s seg)) segs),
               waits = cond_log st\<rparr>)"

text \<open>
  The surroundings of the concrete runs: the host places the backing region at address
  4096, the clock reads 1000, and no timed wait is woken before its deadline.
\<close>

definition env0 :: env where
  "env0 = \<lparr>host_base = 4096, host_segments = True, time_now = 1000, cond_rcs = []\<rparr>"

text \<open>
  \<open>picked h sz best bs r\<close>: starting with the candidate \<open>best\<close>, a pass over the listed
  blocks \<open>bs\<close> ends with \<open>r\<close>. Either no listed block beats the candidate, or \<open>r\<close> is a
  listed block that qualifies, is strictly smaller than the candidate and than every
  qualifying block listed before it, and is no larger than any qualifying block after it.
\<close>

definition picked :: "heap \<Rightarrow> size_t \<Rightarrow> ptr \<Rightarrow> ptr list \<Rightarrow> ptr \<Rightarrow> bool" where
  "picked h sz best bs r \<longleftrightarrow>
     (r = best \<and> (\<forall>p\<in>set bs. fits h sz p \<longrightarrow> best \<noteq> NULL \<and> blk_size h best \<le> blk_size h p)) \<or>
     (\<exists>xs ys. bs = xs @ r # ys \<and> fits h sz r \<and>
        (best \<noteq> NULL \<longrightarrow> blk_size h r < blk_size h best) \<and>
        (\<forall>x\<in>set xs. fits h sz x \<longrightarrow> blk_size h r < blk_size h x) \<and>
        (\<forall>y\<in>set ys. fits h sz y \<longrightarrow> blk_size h r \<le> blk_size h y))"

text \<open>A list of three free blocks, two of them of the same size.\<close>

definition three_blocks :: heap where
  "three_blocks = (\<lambda>_. None)
     (4096 \<mapsto> \<lparr>size_b = 100, next_b = 8192, prev = NULL, free = True, segment_id = 0\<rparr>,
      8192 \<mapsto> \<lparr>size_b = 60, next_b = 12288, prev = 4096, free = True, segment_id = 0\<rparr>,
      12288 \<mapsto> \<lparr>size_b = 60, next_b = NULL, prev = 8192, free = True, segment_id = 0\<rparr>)"

text \<open>A doubly-linked list of three free blocks, and a segment whose free list it is.\<close>

definition linked_blocks :: heap where
  "linked_blocks = (\<lambda>_. None)
     (4096 \<mapsto> \<lparr>size_b = 100, next_b = 8192, prev = NULL, free = True, segment_id = 0\<rparr>,
      8192 \<mapsto> \<lparr>size_b = 200, next_b = 12288, prev = 4096, free = True, segment_id = 0\<rparr>,
      12288 \<mapsto> \<lparr>size_b = 60, next_b = NULL, prev = 8192, free = True, segment_id = 0\<rparr>)"

definition linked_segment :: segment where
  "linked_segment = \<lparr>size_s = 5242880, start_ptr = 4096, free_list = 4096\<rparr>"

text \<open>
  The state after a first call \<open>my_malloc(5242800)\<close>: the request takes the only block of
  segment 0 whole, since the 48 bytes left over are too few for a split.
\<close>

definition nosplit_state :: state where
  "nosplit_state = snd (projr (run 2 env0 [Malloc 5242800] ([], fresh)))"

section \<open>The shape of the heap in the states a client can reach\<close>








section \<open>Basic facts\<close>

lemma ebind_Inl [simp]: "ebind (Inl e) f = Inl e"
  by (simp add: ebind_def)

lemma ebind_Inr [simp]: "ebind (Inr x) f = f x"
  by (simp add: ebind_def)

lemma full_update:
  "r\<lparr>size_b := a, next_b := n, prev := c, free := d, segment_id := e\<rparr> =
     \<lparr>size_b = a, next_b = n, prev = c, free = d, segment_id = e\<rparr>"
  by simp

lemma unat_offset:
  fixes b :: "64 word"
  assumes "unat b + n < 2 ^ 64"
  shows "unat (b + of_nat n) = unat b + n"
proof -
  have "n < 2 ^ 64" using assms by simp
  then have "unat (of_nat n :: 64 word) = n" by (simp add: unat_of_nat)
  then show ?thesis using assms by (simp add: unat_word_ariths)
qed

lemma offset_not_NULL:
  fixes b :: "64 word"
  assumes "b \<noteq> NULL" "unat b + n < 2 ^ 64"
  shows "b + of_nat n \<noteq> NULL"
proof
  assume "b + of_nat n = NULL"
  then have "unat (b + of_nat n) = 0" by (simp add: NULL_def)
  then have "unat b = 0" using unat_offset[OF assms(2)] by simp
  then show False using assms(1) by (simp add: NULL_def unat_eq_zero)
qed

section \<open>Properties of the search\<close>

lemma find_best_fit_loop_NULL [simp]:
  "find_best_fit_loop fuel h NULL best sz = Inr best"
  by (cases fuel) simp_all

lemma find_best_fit_loop_numeral [simp]:
  "find_best_fit_loop (numeral k) h current best sz =
     find_best_fit_loop (Suc (pred_numeral k)) h current best sz"
  by (simp add: numeral_eq_Suc)

lemma picked_Nil: "picked h sz best [] best"
  by (simp add: picked_def)

lemma picked_take:
  assumes "picked h sz p ps r" and "p \<noteq> NULL" and "fits h sz p"
    and "best = NULL \<or> blk_size h p < blk_size h best"
  shows "picked h sz best (p # ps) r"
proof -
  from assms(1) consider
    (keep) "r = p" "\<forall>q\<in>set ps. fits h sz q \<longrightarrow> blk_size h p \<le> blk_size h q"
  | (later) xs ys where "ps = xs @ r # ys" "fits h sz r" "blk_size h r < blk_size h p"
      "\<forall>x\<in>set xs. fits h sz x \<longrightarrow> blk_size h r < blk_size h x"
      "\<forall>y\<in>set ys. fits h sz y \<longrightarrow> blk_size h r \<le> blk_size h y"
    unfolding picked_def using assms(2) by blast
  then show ?thesis
  proof cases
    case keep
    have "p # ps = [] @ r # ps \<and> fits h sz r \<and>
        (best \<noteq> NULL \<longrightarrow> blk_size h r < blk_size h best) \<and>
        (\<forall>x\<in>set []. fits h sz x \<longrightarrow> blk_size h r < blk_size h x) \<and>
        (\<forall>y\<in>set ps. fits h sz y \<longrightarrow> blk_size h r \<le> blk_size h y)"
      using keep assms(3,4) by auto
    then show ?thesis unfolding picked_def by (intro disjI2 exI)
  next
    case later
    have "p # ps = (p # xs) @ r # ys \<and> fits h sz r \<and>
        (best \<noteq> NULL \<longrightarrow> blk_size h r < blk_size h best) \<and>
        (\<forall>x\<in>set (p # xs). fits h sz x \<longrightarrow> blk_size h r < blk_size h x) \<and>
        (\<forall>y\<in>set ys. fits h sz y \<longrightarrow> blk_size h r \<le> blk_size h y)"
      using later assms(4) by auto
    then show ?thesis unfolding picked_def by (intro disjI2 exI)
  qed
qed

lemma picked_skip:
  assumes "picked h sz best ps r"
    and "fits h sz p \<longrightarrow> best \<noteq> NULL \<and> blk_size h best \<le> blk_size h p"
  shows "picked h sz best (p # ps) r"
proof -
  from assms(1) consider
    (keep) "r = best" "\<forall>q\<in>set ps. fits h sz q \<longrightarrow> best \<noteq> NULL \<and> blk_size h best \<le> blk_size h q"
  | (later) xs ys where "ps = xs @ r # ys" "fits h sz r"
      "best \<noteq> NULL \<longrightarrow> blk_size h r < blk_size h best"
      "\<forall>x\<in>set xs. fits h sz x \<longrightarrow> blk_size h r < blk_size h x"
      "\<forall>y\<in>set ys. fits h sz y \<longrightarrow> blk_size h r \<le> blk_size h y"
    unfolding picked_def by blast
  then show ?thesis
  proof cases
    case keep
    then show ?thesis unfolding picked_def using assms(2) by simp
  next
    case later
    have "p # ps = (p # xs) @ r # ys \<and> fits h sz r \<and>
        (best \<noteq> NULL \<longrightarrow> blk_size h r < blk_size h best) \<and>
        (\<forall>x\<in>set (p # xs). fits h sz x \<longrightarrow> blk_size h r < blk_size h x) \<and>
        (\<forall>y\<in>set ys. fits h sz y \<longrightarrow> blk_size h r \<le> blk_size h y)"
      using later assms(2) by auto
    then show ?thesis unfolding picked_def by (intro disjI2 exI)
  qed
qed

lemma find_best_fit_loop_chain:
  assumes "chain h cur bs" and "length bs \<le> fuel"
    and "best = NULL \<or> h best \<noteq> None"
  shows "\<exists>r. find_best_fit_loop fuel h cur best sz = Inr r \<and> picked h sz best bs r"
  using assms
proof (induction bs arbitrary: cur fuel best)
  case Nil
  then show ?case by (simp add: picked_Nil)
next
  case (Cons p ps)
  from Cons.prems(1) obtain c where c: "cur = p" "p \<noteq> NULL" "h p = Some c" "chain h (next_b c) ps"
    by (auto split: option.splits)
  from Cons.prems(2) obtain n where n: "fuel = Suc n" "length ps \<le> n"
    by (cases fuel) auto
  show ?case
  proof (cases "fits h sz p \<and> (best = NULL \<or> blk_size h p < blk_size h best)")
    case True
    have step: "find_best_fit_loop fuel h cur best sz = find_best_fit_loop n h (next_b c) p sz"
      using True c(1,2,3) n(1) Cons.prems(3)
      by (auto simp: fits_def blk_free_def blk_size_def split: option.splits)
    have "p = NULL \<or> h p \<noteq> None" using c(3) by simp
    from Cons.IH[OF c(4) n(2) this]
    obtain r where r: "find_best_fit_loop n h (next_b c) p sz = Inr r" "picked h sz p ps r"
      by blast
    have "picked h sz best (p # ps) r"
      using picked_take[OF r(2) c(2)] True by blast
    then show ?thesis using step r(1) by simp
  next
    case False
    have step: "find_best_fit_loop fuel h cur best sz = find_best_fit_loop n h (next_b c) best sz"
      using False c(1,2,3) n(1) Cons.prems(3)
      by (auto simp: fits_def blk_free_def blk_size_def split: option.splits)
    from Cons.IH[OF c(4) n(2) Cons.prems(3)]
    obtain r where r: "find_best_fit_loop n h (next_b c) best sz = Inr r" "picked h sz best ps r"
      by blast
    have "fits h sz p \<longrightarrow> best \<noteq> NULL \<and> blk_size h best \<le> blk_size h p"
      using False by auto
    from picked_skip[OF r(2) this] show ?thesis using step r(1) by simp
  qed
qed


text \<open>
  Claim C8, as the code has it. On a null-terminated list and for a request \<open>sz > 0\<close>,
  \<open>find_best_fit\<close> returns (given fuel for every listed block). Among the listed blocks
  that are marked free and have \<open>size \<ge> sz\<close> it returns the one of smallest size, the first
  in list order among equals: every such block listed before it is strictly larger, every
  such block listed after it is at least as large. It returns null exactly when no listed
  block is both free and large enough.
\<close>

theorem find_best_fit_smallest_free:
  assumes "chain h fl bs" and "0 < sz" and "length bs \<le> fuel"
  shows "\<exists>r. find_best_fit fuel h fl sz = Inr r \<and>
    ((r = NULL \<and> (\<forall>p\<in>set bs. \<not> fits h sz p)) \<or>
     (\<exists>xs ys. bs = xs @ r # ys \<and> fits h sz r \<and>
        (\<forall>x\<in>set xs. fits h sz x \<longrightarrow> blk_size h r < blk_size h x) \<and>
        (\<forall>y\<in>set ys. fits h sz y \<longrightarrow> blk_size h r \<le> blk_size h y)))"
proof -
  from find_best_fit_loop_chain[OF assms(1,3), of NULL sz]
  obtain r where r: "find_best_fit_loop fuel h fl NULL sz = Inr r" "picked h sz NULL bs r"
    by auto
  have 1: "find_best_fit fuel h fl sz = Inr r" using r(1) assms(2) by (simp add: find_best_fit_def)
  have 2: "(r = NULL \<and> (\<forall>p\<in>set bs. \<not> fits h sz p)) \<or>
     (\<exists>xs ys. bs = xs @ r # ys \<and> fits h sz r \<and>
        (\<forall>x\<in>set xs. fits h sz x \<longrightarrow> blk_size h r < blk_size h x) \<and>
        (\<forall>y\<in>set ys. fits h sz y \<longrightarrow> blk_size h r \<le> blk_size h y))"
    using r(2) unfolding picked_def by simp
  from 1 2 show ?thesis by (intro exI[of _ r] conjI)
qed

theorem find_best_fit_smallest_free_witness:
  "chain three_blocks 4096 [4096, 8192, 12288] \<and> (0 :: size_t) < 50 \<and>
   length [4096 :: ptr, 8192, 12288] \<le> 3 \<and>
   find_best_fit 3 three_blocks 4096 50 = Inr 8192 \<and>
   fits three_blocks 50 4096 \<and> fits three_blocks 50 8192 \<and> fits three_blocks 50 12288 \<and>
   blk_size three_blocks 8192 < blk_size three_blocks 4096 \<and>
   blk_size three_blocks 8192 \<le> blk_size three_blocks 12288"
proof -
  have c: "chain three_blocks 4096 [4096, 8192, 12288]"
    by (simp add: three_blocks_def NULL_def)
  have s: "(0 :: size_t) < 50" by simp
  have l: "length [4096 :: ptr, 8192, 12288] \<le> 3" by simp
  from find_best_fit_smallest_free[OF c s l]
  obtain r where r: "find_best_fit 3 three_blocks 4096 50 = Inr r" by blast
  have e: "find_best_fit 3 three_blocks 4096 50 = Inr 8192"
    by code_simp
  have f: "fits three_blocks 50 4096 \<and> fits three_blocks 50 8192 \<and> fits three_blocks 50 12288 \<and>
   blk_size three_blocks 8192 < blk_size three_blocks 4096 \<and>
   blk_size three_blocks 8192 \<le> blk_size three_blocks 12288"
    by (simp add: three_blocks_def fits_def blk_free_def blk_size_def)
  from r e have "r = 8192" by simp
  with r c s l f show ?thesis by simp
qed


lemma nosplit_facts:
  "memory nosplit_state 4096 =
     Some \<lparr>size_b = 5242848, next_b = 0, prev = 0, free = False, segment_id = 0\<rparr>"
  "free_list (the (segments nosplit_state) ! 0) = 4096"
  unfolding nosplit_state_def by code_simp+

text \<open>
  The claim as the spec words it, without the test of the \<open>free\<close> flag, fails in a state the
  allocator reaches: after \<open>my_malloc(5242800)\<close> the free list of segment 0 still holds the
  block just handed out. It has \<open>size \<ge> 1\<close>, yet the search for 1 byte returns null.
\<close>

theorem find_best_fit_counterexample:
  "chain (memory nosplit_state) (free_list (the (segments nosplit_state) ! 0)) [4096] \<and>
   1 \<le> blk_size (memory nosplit_state) 4096 \<and>
   find_best_fit 2 (memory nosplit_state) (free_list (the (segments nosplit_state) ! 0)) 1 = Inr NULL"
  unfolding nosplit_facts(2)
  by (simp add: nosplit_facts(1) NULL_def blk_size_def find_best_fit_def)

section \<open>Initialization partitions the region\<close>

lemma upt5: "[0..<5] = [0, 1, 2, 3, 4]"
  by (simp add: upt_rec)

lemma lt5: "i < (5::nat) \<longleftrightarrow> i = 0 \<or> i = 1 \<or> i = 2 \<or> i = 3 \<or> i = 4"
  by auto

lemma segment_sizes:
  "size_t_of_double SEG_1_TO_4_SIZE = 5242880" "size_t_of_double SEG_5_SIZE = 83886080"
  by (simp_all add: size_t_of_double_def SEG_1_TO_4_SIZE_def SEG_5_SIZE_def TOTAL_SIZE_def
      NUM_SEGMENTS_def)

lemma init_segments_step:
  assumes "p \<noteq> NULL"
  shows "init_segments (i # rest) p h =
    ebind (init_segments rest
            (p + (if i < 4 then 5242880 else 83886080))
            (put h p (initial_header (if i < 4 then 5242880 else 83886080) (int i))))
      (\<lambda>(segs, h2). Inr (\<lparr>size_s = (if i < 4 then 5242880 else 83886080), start_ptr = p,
                            free_list = p\<rparr> # segs, h2))"
  unfolding init_segments.simps segment_sizes NUM_SEGMENTS_def
  using assms
  by (simp add: Let_def place_def initial_header_def full_update)

lemma init_segments_eval:
  assumes "b \<noteq> NULL" "unat b + 104857600 \<le> 2 ^ 64"
  shows "init_segments [0..<NUM_SEGMENTS] b h = Inr (
     [\<lparr>size_s = 5242880, start_ptr = b, free_list = b\<rparr>,
      \<lparr>size_s = 5242880, start_ptr = b + 5242880, free_list = b + 5242880\<rparr>,
      \<lparr>size_s = 5242880, start_ptr = b + 10485760, free_list = b + 10485760\<rparr>,
      \<lparr>size_s = 5242880, start_ptr = b + 15728640, free_list = b + 15728640\<rparr>,
      \<lparr>size_s = 83886080, start_ptr = b + 20971520, free_list = b + 20971520\<rparr>],
      put (put (put (put (put h b (initial_header 5242880 0))
        (b + 5242880) (initial_header 5242880 1))
        (b + 10485760) (initial_header 5242880 2))
        (b + 15728640) (initial_header 5242880 3))
        (b + 20971520) (initial_header 83886080 4))"
proof -
  have nz: "b + 5242880 \<noteq> NULL" "b + 10485760 \<noteq> NULL" "b + 15728640 \<noteq> NULL"
      "b + 20971520 \<noteq> NULL"
    using offset_not_NULL[OF assms(1), of 5242880] offset_not_NULL[OF assms(1), of 10485760]
      offset_not_NULL[OF assms(1), of 15728640] offset_not_NULL[OF assms(1), of 20971520] assms(2)
    by simp_all
  have nz': "5242880 + b \<noteq> NULL" "10485760 + b \<noteq> NULL" "15728640 + b \<noteq> NULL"
      "20971520 + b \<noteq> NULL"
    using nz by (simp_all add: add.commute)
  show ?thesis
    using assms(1) nz nz'
    by (simp del: init_segments.simps(2)
        add: NUM_SEGMENTS_def upt5 init_segments_step add.commute)
qed

lemma init_heap_lookup:
  fixes b :: ptr
  defines "h' \<equiv> \<lambda>h. put (put (put (put (put h b (initial_header 5242880 0))
        (b + 5242880) (initial_header 5242880 1))
        (b + 10485760) (initial_header 5242880 2))
        (b + 15728640) (initial_header 5242880 3))
        (b + 20971520) (initial_header 83886080 4)"
  shows "h' h b = Some (initial_header 5242880 0)"
    "h' h (b + 5242880) = Some (initial_header 5242880 1)"
    "h' h (b + 10485760) = Some (initial_header 5242880 2)"
    "h' h (b + 15728640) = Some (initial_header 5242880 3)"
    "h' h (b + 20971520) = Some (initial_header 83886080 4)"
  by (simp_all add: h'_def put_def overlaps_def sizeof_block_header_def)

text \<open>
  Claim C7. When the host hands out a backing region (at a non-null address, inside the
  address space) and the segment array, \<open>initialize_allocator\<close> returns \<open>NUM_SEGMENTS\<close>
  segments: the first starts at the region's base, each next one starts where the previous
  one ends, each of the first \<open>N - 1\<close> has \<open>\<lfloor>0.20 C / (N - 1)\<rfloor>\<close> bytes and the last one has
  all the remaining bytes, so that the sizes add up to \<open>C\<close> and the last segment ends at the
  end of the region. Every segment's free list is the one header written at its start,
  with \<open>size = segment.size - sizeof(header)\<close>, \<open>free\<close> set, both links null and the
  segment's index as \<open>segment_id\<close>.
\<close>

theorem initialize_allocator_partition:
  assumes "host_base e \<noteq> NULL" and "host_segments e"
    and "unat (host_base e) + nat TOTAL_SIZE \<le> 2 ^ 64"
  shows "\<exists>segs st'. initialize_allocator e st = Inr (Some segs, st') \<and>
     length segs = NUM_SEGMENTS \<and>
     start_ptr (segs ! 0) = host_base e \<and>
     (\<forall>i<NUM_SEGMENTS.
        size_s (segs ! i) =
          (if i < NUM_SEGMENTS - 1
           then word_of_int \<lfloor>(20 / 100 * of_int TOTAL_SIZE / of_nat (NUM_SEGMENTS - 1) :: rat)\<rfloor>
           else word_of_int (TOTAL_SIZE - int (NUM_SEGMENTS - 1) *
                  \<lfloor>(20 / 100 * of_int TOTAL_SIZE / of_nat (NUM_SEGMENTS - 1) :: rat)\<rfloor>)) \<and>
        (Suc i < NUM_SEGMENTS \<longrightarrow>
           start_ptr (segs ! Suc i) = start_ptr (segs ! i) + size_s (segs ! i)) \<and>
        free_list (segs ! i) = start_ptr (segs ! i) \<and>
        memory st' (start_ptr (segs ! i)) =
          Some \<lparr>size_b = size_s (segs ! i) - sizeof_block_header, next_b = NULL, prev = NULL,
                 free = True, segment_id = int i\<rparr> \<and>
        chain (memory st') (free_list (segs ! i)) [start_ptr (segs ! i)]) \<and>
     sum_list (map (\<lambda>s. unat (size_s s)) segs) = nat TOTAL_SIZE \<and>
     unat (start_ptr (segs ! (NUM_SEGMENTS - 1))) + unat (size_s (segs ! (NUM_SEGMENTS - 1))) =
       unat (host_base e) + nat TOTAL_SIZE"
proof -
  let ?b = "host_base e"
  have sz: "unat ?b + 104857600 \<le> 2 ^ 64" using assms(3) by (simp add: TOTAL_SIZE_def)
  have nz: "?b + 5242880 \<noteq> NULL" "?b + 10485760 \<noteq> NULL" "?b + 15728640 \<noteq> NULL"
      "?b + 20971520 \<noteq> NULL"
    using offset_not_NULL[OF assms(1), of 5242880] offset_not_NULL[OF assms(1), of 10485760]
      offset_not_NULL[OF assms(1), of 15728640] offset_not_NULL[OF assms(1), of 20971520] sz
    by simp_all
  have u4: "unat (?b + 20971520) = unat ?b + 20971520"
    using unat_offset[of ?b 20971520] sz by simp
  have fl: "\<lfloor>(20 / 100 * of_int TOTAL_SIZE / of_nat (NUM_SEGMENTS - 1) :: rat)\<rfloor> = 5242880"
    by (simp add: TOTAL_SIZE_def NUM_SEGMENTS_def)
  let ?segs = "[\<lparr>size_s = 5242880, start_ptr = ?b, free_list = ?b\<rparr>,
      \<lparr>size_s = 5242880, start_ptr = ?b + 5242880, free_list = ?b + 5242880\<rparr>,
      \<lparr>size_s = 5242880, start_ptr = ?b + 10485760, free_list = ?b + 10485760\<rparr>,
      \<lparr>size_s = 5242880, start_ptr = ?b + 15728640, free_list = ?b + 15728640\<rparr>,
      \<lparr>size_s = 83886080, start_ptr = ?b + 20971520, free_list = ?b + 20971520\<rparr>]"
  let ?h = "put (put (put (put (put (memory st) ?b (initial_header 5242880 0))
        (?b + 5242880) (initial_header 5242880 1))
        (?b + 10485760) (initial_header 5242880 2))
        (?b + 15728640) (initial_header 5242880 3))
        (?b + 20971520) (initial_header 83886080 4)"
  have run: "initialize_allocator e st = Inr (Some ?segs, st\<lparr>base_ptr := ?b, memory := ?h\<rparr>)"
    using assms(1,2)
    by (simp add: initialize_allocator_def Let_def init_segments_eval[OF assms(1) sz])
  show ?thesis
    apply (rule exI[of _ ?segs])
    apply (rule exI[of _ "st\<lparr>base_ptr := ?b, memory := ?h\<rparr>"])
    using nz u4 assms(1)
    apply (simp add: run fl init_heap_lookup lt5 NUM_SEGMENTS_def TOTAL_SIZE_def)
    apply (simp add: initial_header_def sizeof_block_header_def)
    done
qed

theorem initialize_allocator_partition_witness:
  "host_base env0 \<noteq> NULL \<and> host_segments env0 \<and>
   unat (host_base env0) + nat TOTAL_SIZE \<le> 2 ^ 64 \<and>
   \<not> isl (initialize_allocator env0 fresh) \<and>
   map_option length (fst (projr (initialize_allocator env0 fresh))) = Some 5 \<and>
   map_option (\<lambda>segs. start_ptr (segs ! 0)) (fst (projr (initialize_allocator env0 fresh))) = Some 4096 \<and>
   map_option (\<lambda>segs. size_s (segs ! 0)) (fst (projr (initialize_allocator env0 fresh))) = Some 5242880 \<and>
   map_option (\<lambda>segs. size_s (segs ! 4)) (fst (projr (initialize_allocator env0 fresh))) = Some 83886080"
proof -
  have h1: "host_base env0 \<noteq> NULL" by (simp add: env0_def NULL_def)
  have h2: "host_segments env0" by (simp add: env0_def)
  have h3: "unat (host_base env0) + nat TOTAL_SIZE \<le> 2 ^ 64"
    by (simp add: env0_def TOTAL_SIZE_def)
  from initialize_allocator_partition[OF h1 h2 h3, of fresh]
  obtain segs st' where r: "initialize_allocator env0 fresh = Inr (Some segs, st')"
    and len: "length segs = NUM_SEGMENTS"
    and s0: "start_ptr (segs ! 0) = host_base env0"
    and all: "\<forall>i<NUM_SEGMENTS.
        size_s (segs ! i) =
          (if i < NUM_SEGMENTS - 1
           then word_of_int \<lfloor>(20 / 100 * of_int TOTAL_SIZE / of_nat (NUM_SEGMENTS - 1) :: rat)\<rfloor>
           else word_of_int (TOTAL_SIZE - int (NUM_SEGMENTS - 1) *
                  \<lfloor>(20 / 100 * of_int TOTAL_SIZE / of_nat (NUM_SEGMENTS - 1) :: rat)\<rfloor>))"
    by blast
  have z0: "size_s (segs ! 0) = 5242880"
    using all[rule_format, of 0] by (simp add: NUM_SEGMENTS_def TOTAL_SIZE_def)
  have z4: "size_s (segs ! 4) = 83886080"
    using all[rule_format, of 4] by (simp add: NUM_SEGMENTS_def TOTAL_SIZE_def)
  have len5: "length segs = 5" using len by (simp add: NUM_SEGMENTS_def)
  have b0: "start_ptr (segs ! 0) = 4096" using s0 by (simp add: env0_def)
  have c: "\<not> isl (initialize_allocator env0 fresh) \<and>
   map_option length (fst (projr (initialize_allocator env0 fresh))) = Some 5 \<and>
   map_option (\<lambda>segs. start_ptr (segs ! 0)) (fst (projr (initialize_allocator env0 fresh))) = Some 4096 \<and>
   map_option (\<lambda>segs. size_s (segs ! 0)) (fst (projr (initialize_allocator env0 fresh))) = Some 5242880 \<and>
   map_option (\<lambda>segs. size_s (segs ! 4)) (fst (projr (initialize_allocator env0 fresh))) = Some 83886080"
    unfolding r using len5 b0 z0 z4 by simp
  show ?thesis using h1 h2 h3 c by blast
qed


section \<open>The footprint wraps around\<close>



section \<open>Splitting a block\<close>


lemma store_Some: "p \<noteq> NULL \<Longrightarrow> h p = Some b \<Longrightarrow> store h p f = Inr (h(p \<mapsto> f b))"
  by (simp add: store_def deref_def)

lemma place_ok: "p \<noteq> NULL \<Longrightarrow> place h p f = Inr (put h p (f (bytes_at h p)))"
  by (simp add: place_def)

lemma put_same [simp]: "put h p b p = Some b"
  by (simp add: put_def)

lemma put_other: "q \<noteq> p \<Longrightarrow> \<not> overlaps q p \<Longrightarrow> put h p b q = h q"
  by (simp add: put_def)

lemma split_block_split:
  fixes h :: heap
  assumes nb: "nb = block + sizeof_block_header + sz"
    and blk: "block \<noteq> NULL" "h block = Some b"
    and sz: "0 < sz"
    and split: "MIN_SPLIT_SIZE + sizeof_block_header \<le> size_b b - sz"
    and nbn: "nb \<noteq> NULL"
    and clean: "\<forall>q. q = nb \<or> overlaps q nb \<longrightarrow> h q = None"
    and nx: "next_b b \<noteq> NULL \<longrightarrow> h (next_b b) = Some n \<and> next_b b \<noteq> block"
    and pv: "prev b \<noteq> NULL \<longrightarrow> h (prev b) = Some p \<and> prev b \<noteq> block \<and> prev b \<noteq> next_b b"
  shows "\<exists>h'. split_block h seg block sz =
           Inr (h', if free_list seg = block then seg\<lparr>free_list := nb\<rparr> else seg) \<and>
     (\<forall>q. h' q =
        (if q = nb
         then Some \<lparr>size_b = size_b b - sz - sizeof_block_header, next_b = next_b b,
                    prev = prev b, free = True, segment_id = segment_id b\<rparr>
         else if q = block then Some (b\<lparr>size_b := sz, next_b := nb, free := False\<rparr>)
         else if q = next_b b \<and> next_b b \<noteq> NULL then Some (n\<lparr>prev := nb\<rparr>)
         else if q = prev b \<and> prev b \<noteq> NULL then Some (p\<lparr>next_b := nb\<rparr>)
         else h q))"
proof -
  have d: "block \<noteq> nb" using clean blk(2) by auto
  have pc: "\<And>x. put h nb x = h(nb \<mapsto> x)"
    using clean by (auto simp: put_def fun_eq_iff)
  have hnb: "h nb = None" using clean by simp
  show ?thesis
  proof (cases "next_b b = NULL")
    case nN: True
    show ?thesis
    proof (cases "prev b = NULL")
      case True
      show ?thesis
        unfolding split_block_def Let_def nb[symmetric]
        using blk sz split nbn d nN True hnb
        by (simp add: deref_def store_def place_def pc bytes_at_def)
    next
      case False
      then have p: "h (prev b) = Some p" "prev b \<noteq> block" "prev b \<noteq> nb"
        using pv hnb by auto
      show ?thesis
        unfolding split_block_def Let_def nb[symmetric]
        using blk sz split nbn d nN False p hnb
        by (simp add: deref_def store_def place_def pc bytes_at_def)
    qed
  next
    case nN: False
    then have n: "h (next_b b) = Some n" "next_b b \<noteq> block" "next_b b \<noteq> nb"
      using nx hnb by auto
    show ?thesis
    proof (cases "prev b = NULL")
      case True
      show ?thesis
        unfolding split_block_def Let_def nb[symmetric]
        using blk sz split nbn d nN True n hnb
        by (simp add: deref_def store_def place_def pc bytes_at_def)
    next
      case False
      then have p: "h (prev b) = Some p" "prev b \<noteq> block" "prev b \<noteq> nb" "prev b \<noteq> next_b b"
        using pv hnb by auto
      show ?thesis
        unfolding split_block_def Let_def nb[symmetric]
        using blk sz split nbn d nN False n p hnb
        by (simp add: deref_def store_def place_def pc bytes_at_def)
    qed
  qed
qed


lemma dlist_frame:
  "dlist h a p bs \<Longrightarrow> (\<forall>x\<in>set bs. h' x = h x) \<Longrightarrow> dlist h' a p bs"
  by (induction bs arbitrary: a p) (auto split: option.splits)

lemma dlist_not_NULL: "dlist h a p bs \<Longrightarrow> NULL \<notin> set bs"
  by (induction bs arbitrary: a p) (auto split: option.splits)

lemma dlist_chain: "dlist h a p bs \<Longrightarrow> chain h p bs"
  by (induction bs arbitrary: a p) (auto split: option.splits)

lemma dlist_links:
  assumes "dlist h a p (xs @ block # ys)" and "h block = Some b"
  shows "prev b = (if xs = [] then a else last xs) \<and>
         next_b b = (if ys = [] then NULL else hd ys)"
  using assms
proof (induction xs arbitrary: a p)
  case Nil
  then show ?case by (cases ys) (auto split: option.splits)
next
  case (Cons x xs)
  from Cons.prems(1) obtain c where c: "h x = Some c" "dlist h x (next_b c) (xs @ block # ys)"
    by (auto split: option.splits)
  from Cons.IH[OF c(2) Cons.prems(2)] show ?case by simp
qed

lemma dlist_replace:
  assumes l: "dlist h a p (xs @ block # ys)"
    and dist: "distinct (xs @ block # ys)"
    and fresh: "nb \<notin> set (xs @ block # ys)" "nb \<noteq> NULL"
    and a: "a \<notin> set (xs @ block # ys)"
    and b: "h block = Some b"
    and t: "h' nb = Some t" "next_b t = next_b b" "prev t = prev b"
    and n: "next_b b \<noteq> NULL \<longrightarrow> (\<exists>n. h (next_b b) = Some n \<and> h' (next_b b) = Some (n\<lparr>prev := nb\<rparr>))"
    and p: "prev b \<noteq> NULL \<longrightarrow> (\<exists>c. h (prev b) = Some c \<and> h' (prev b) = Some (c\<lparr>next_b := nb\<rparr>))"
    and frame: "\<forall>q. q \<noteq> nb \<and> q \<noteq> block \<and> q \<noteq> next_b b \<and> q \<noteq> prev b \<longrightarrow> h' q = h q"
  shows "dlist h' a (if xs = [] then nb else p) (xs @ nb # ys)"
  using l dist fresh(1) a
proof (induction xs arbitrary: a p)
  case Nil
  from Nil.prems(1) b have pb: "p = block" "prev b = a" and tl: "dlist h block (next_b b) ys"
    by (auto split: option.splits)
  have "dlist h' nb (next_b b) ys"
  proof (cases ys)
    case Nil
    then show ?thesis using tl by simp
  next
    case (Cons y ys')
    from tl Cons obtain m where m: "next_b b = y" "y \<noteq> NULL" "h y = Some m" "prev m = block"
        "dlist h y (next_b m) ys'"
      by (auto split: option.splits)
    from n m have hy: "h' y = Some (m\<lparr>prev := nb\<rparr>)" by auto
    have "\<forall>x\<in>set ys'. h' x = h x"
    proof
      fix x assume x: "x \<in> set ys'"
      have "x \<noteq> nb" using Nil.prems(3) x Cons by auto
      moreover have "x \<noteq> block" using Nil.prems(2) x Cons by auto
      moreover have "x \<noteq> next_b b" using Nil.prems(2) x Cons m(1) by auto
      moreover have "x \<noteq> prev b" using Nil.prems(4) x Cons pb(2) by auto
      ultimately show "h' x = h x" using frame by blast
    qed
    from dlist_frame[OF m(5) this] have "dlist h' y (next_b m) ys'" .
    then show ?thesis using Cons m(1,2) hy by simp
  qed
  then show ?case using t fresh(2) pb(2) by simp
next
  case (Cons x xs)
  from Cons.prems(1) obtain c where c: "p = x" "x \<noteq> NULL" "h x = Some c" "prev c = a"
      "dlist h x (next_b c) (xs @ block # ys)"
    by (auto split: option.splits)
  have xn: "x \<notin> set (xs @ block # ys)" using Cons.prems(2) by simp
  have d': "distinct (xs @ block # ys)" using Cons.prems(2) by simp
  have f': "nb \<notin> set (xs @ block # ys)" using Cons.prems(3) by simp
  from Cons.IH[OF c(5) d' f' xn]
  have ih: "dlist h' x (if xs = [] then nb else next_b c) (xs @ nb # ys)" .
  from dlist_links[OF Cons.prems(1) b]
  have lk: "prev b = last (x # xs)" "next_b b = (if ys = [] then NULL else hd ys)" by simp_all
  have x1: "x \<noteq> nb" using Cons.prems(3) by auto
  have x2: "x \<noteq> block" using Cons.prems(2) by auto
  have x3: "x \<noteq> next_b b"
  proof (cases ys)
    case Nil then show ?thesis using lk(2) c(2) by simp
  next
    case (Cons y ys') then show ?thesis using lk(2) xn by auto
  qed
  have "\<exists>c'. h' x = Some c' \<and> prev c' = a \<and> next_b c' = (if xs = [] then nb else next_b c)"
  proof (cases "xs = []")
    case True
    then have "prev b = x" using lk(1) by simp
    with p c(2,3) have "h' x = Some (c\<lparr>next_b := nb\<rparr>)" by auto
    then show ?thesis using True c(4) by simp
  next
    case False
    then have "prev b = last xs" using lk(1) by simp
    then have "prev b \<in> set xs" using False by simp
    then have "x \<noteq> prev b" using Cons.prems(2) by auto
    with x1 x2 x3 frame have "h' x = h x" by blast
    then show ?thesis using False c(3,4) by simp
  qed
  then obtain c' where c': "h' x = Some c'" "prev c' = a"
      "next_b c' = (if xs = [] then nb else next_b c)" by blast
  show ?case using c(1,2) c' ih by simp
qed


lemma split_block_whole:
  assumes "block \<noteq> NULL" "h block = Some b" "0 < sz"
    and "\<not> MIN_SPLIT_SIZE + sizeof_block_header \<le> size_b b - sz"
  shows "split_block h seg block sz = Inr (h, seg)"
  using assms by (simp add: split_block_def deref_def)

lemma take_block_whole:
  assumes "block \<noteq> NULL" "h block = Some b" "0 < sz"
    and "\<not> MIN_SPLIT_SIZE + sizeof_block_header \<le> size_b b - sz"
  shows "take_block h seg block sz = Inr (h(block \<mapsto> b\<lparr>free := False\<rparr>), seg)"
  using assms by (simp add: take_block_def split_block_whole store_Some)

lemma take_block_split:
  fixes h :: heap
  assumes nb: "nb = block + sizeof_block_header + sz"
    and blk: "block \<noteq> NULL" "h block = Some b"
    and sz: "0 < sz"
    and split: "MIN_SPLIT_SIZE + sizeof_block_header \<le> size_b b - sz"
    and nbn: "nb \<noteq> NULL"
    and clean: "\<forall>q. q = nb \<or> overlaps q nb \<longrightarrow> h q = None"
    and nx: "next_b b \<noteq> NULL \<longrightarrow> h (next_b b) = Some n \<and> next_b b \<noteq> block"
    and pv: "prev b \<noteq> NULL \<longrightarrow> h (prev b) = Some p \<and> prev b \<noteq> block \<and> prev b \<noteq> next_b b"
  shows "\<exists>h'. take_block h seg block sz =
           Inr (h', if free_list seg = block then seg\<lparr>free_list := nb\<rparr> else seg) \<and>
     (\<forall>q. h' q =
        (if q = nb
         then Some \<lparr>size_b = size_b b - sz - sizeof_block_header, next_b = next_b b,
                    prev = prev b, free = True, segment_id = segment_id b\<rparr>
         else if q = block then Some (b\<lparr>size_b := sz, next_b := nb, free := False\<rparr>)
         else if q = next_b b \<and> next_b b \<noteq> NULL then Some (n\<lparr>prev := nb\<rparr>)
         else if q = prev b \<and> prev b \<noteq> NULL then Some (p\<lparr>next_b := nb\<rparr>)
         else h q))"
proof -
  from split_block_split[OF nb blk sz split nbn clean nx pv, of seg]
  obtain h' where h': "split_block h seg block sz =
           Inr (h', if free_list seg = block then seg\<lparr>free_list := nb\<rparr> else seg)"
    and pt: "\<forall>q. h' q =
        (if q = nb
         then Some \<lparr>size_b = size_b b - sz - sizeof_block_header, next_b = next_b b,
                    prev = prev b, free = True, segment_id = segment_id b\<rparr>
         else if q = block then Some (b\<lparr>size_b := sz, next_b := nb, free := False\<rparr>)
         else if q = next_b b \<and> next_b b \<noteq> NULL then Some (n\<lparr>prev := nb\<rparr>)
         else if q = prev b \<and> prev b \<noteq> NULL then Some (p\<lparr>next_b := nb\<rparr>)
         else h q)"
    by blast
  have bn: "block \<noteq> nb" using clean blk(2) by auto
  have hb: "h' block = Some (b\<lparr>size_b := sz, next_b := nb, free := False\<rparr>)"
    using pt bn by simp
  have same: "h'(block \<mapsto> (b\<lparr>size_b := sz, next_b := nb, free := False\<rparr>)\<lparr>free := False\<rparr>) = h'"
    using hb by (auto simp: fun_eq_iff)
  have "take_block h seg block sz =
           Inr (h', if free_list seg = block then seg\<lparr>free_list := nb\<rparr> else seg)"
    unfolding take_block_def h' using blk(1) hb same by (simp add: store_Some)
  with pt show ?thesis by blast
qed


text \<open>
  Claim C4, as the code has it. The block chosen sits in a doubly-linked free list, between
  the blocks \<open>xs\<close> listed before it and \<open>ys\<close> listed after it, and \<open>size \<ge> requested\<close>.

  If \<open>size - requested \<ge> MIN_SPLIT_SIZE + sizeof(header)\<close> (and the tail's header lands on
  bytes of no other header), \<open>my_malloc\<close> writes a free header at
  \<open>addr(block) + sizeof(header) + requested\<close> with the residual payload
  \<open>size - requested - sizeof(header)\<close>, the block's \<open>segment_id\<close> and the block's two links;
  the list becomes \<open>xs\<close>, the tail, \<open>ys\<close>, and the tail is the new head when the block was the
  head. The block has \<open>size = requested\<close>, is marked allocated and is no longer listed; no
  header other than the block, the tail and the two list neighbours changes.

  If the residual is smaller, \<open>split_block\<close> changes nothing: the block keeps its size and
  its links, only its \<open>free\<close> flag is cleared, and it stays in the list where it was.
\<close>

theorem take_block_split_or_whole:
  assumes list: "dlist h before (free_list seg) (xs @ block # ys)"
    and dist: "distinct (xs @ block # ys)"
    and bef: "before = NULL \<or> (h before \<noteq> None \<and> before \<notin> set (xs @ block # ys))"
    and b: "h block = Some b"
    and sz: "0 < sz" "sz \<le> size_b b"
    and nb: "nb = block + sizeof_block_header + sz"
  shows
   "(MIN_SPLIT_SIZE + sizeof_block_header \<le> size_b b - sz \<and> nb \<noteq> NULL \<and>
       (\<forall>q. q = nb \<or> overlaps q nb \<longrightarrow> h q = None) \<longrightarrow>
     (\<exists>h' seg'. take_block h seg block sz = Inr (h', seg') \<and>
        h' nb = Some \<lparr>size_b = size_b b - sz - sizeof_block_header, next_b = next_b b,
                       prev = prev b, free = True, segment_id = segment_id b\<rparr> \<and>
        unat (size_b b - sz - sizeof_block_header) = unat (size_b b) - unat sz - 32 \<and>
        h' block = Some (b\<lparr>size_b := sz, next_b := nb, free := False\<rparr>) \<and>
        seg' = seg\<lparr>free_list := (if xs = [] then nb else free_list seg)\<rparr> \<and>
        dlist h' before (free_list seg') (xs @ nb # ys) \<and>
        block \<notin> set (xs @ nb # ys) \<and>
        (\<forall>q. q \<noteq> nb \<and> q \<noteq> block \<and> q \<noteq> next_b b \<and> q \<noteq> prev b \<longrightarrow> h' q = h q))) \<and>
    (\<not> MIN_SPLIT_SIZE + sizeof_block_header \<le> size_b b - sz \<longrightarrow>
       take_block h seg block sz = Inr (h(block \<mapsto> b\<lparr>free := False\<rparr>), seg) \<and>
       dlist (h(block \<mapsto> b\<lparr>free := False\<rparr>)) before (free_list seg) (xs @ block # ys))"
proof -
  have nn: "NULL \<notin> set (xs @ block # ys)" using dlist_not_NULL[OF list] .
  then have bn: "block \<noteq> NULL" by auto
  have lk: "prev b = (if xs = [] then before else last xs)"
      "next_b b = (if ys = [] then NULL else hd ys)"
    using dlist_links[OF list b] by simp_all
  have valid: "\<And>x. x \<in> set (xs @ block # ys) \<Longrightarrow> h x \<noteq> None"
    using dlist_chain[OF list]
  proof -
    have "\<And>p zs x. chain h p zs \<Longrightarrow> x \<in> set zs \<Longrightarrow> h x \<noteq> None"
    proof -
      fix p zs x show "chain h p zs \<Longrightarrow> x \<in> set zs \<Longrightarrow> h x \<noteq> None"
        by (induction zs arbitrary: p) (auto split: option.splits)
    qed
    then show "\<And>x. x \<in> set (xs @ block # ys) \<Longrightarrow> h x \<noteq> None"
      using dlist_chain[OF list] by blast
  qed
  have W: "take_block h seg block sz = Inr (h(block \<mapsto> b\<lparr>free := False\<rparr>), seg) \<and>
       dlist (h(block \<mapsto> b\<lparr>free := False\<rparr>)) before (free_list seg) (xs @ block # ys)"
    if whole: "\<not> MIN_SPLIT_SIZE + sizeof_block_header \<le> size_b b - sz"
  proof
    show "take_block h seg block sz = Inr (h(block \<mapsto> b\<lparr>free := False\<rparr>), seg)"
      using bn b sz(1) whole by (rule take_block_whole)
    have "\<And>a p zs. dlist h a p zs \<Longrightarrow> h block = Some b \<Longrightarrow>
        dlist (h(block \<mapsto> b\<lparr>free := False\<rparr>)) a p zs"
    proof -
      fix a p zs show "dlist h a p zs \<Longrightarrow> h block = Some b \<Longrightarrow>
        dlist (h(block \<mapsto> b\<lparr>free := False\<rparr>)) a p zs"
        by (induction zs arbitrary: a p) (auto split: option.splits)
    qed
    from this[OF list b]
    show "dlist (h(block \<mapsto> b\<lparr>free := False\<rparr>)) before (free_list seg) (xs @ block # ys)" .
  qed
  have S: "\<exists>h' seg'. take_block h seg block sz = Inr (h', seg') \<and>
        h' nb = Some \<lparr>size_b = size_b b - sz - sizeof_block_header, next_b = next_b b,
                       prev = prev b, free = True, segment_id = segment_id b\<rparr> \<and>
        unat (size_b b - sz - sizeof_block_header) = unat (size_b b) - unat sz - 32 \<and>
        h' block = Some (b\<lparr>size_b := sz, next_b := nb, free := False\<rparr>) \<and>
        seg' = seg\<lparr>free_list := (if xs = [] then nb else free_list seg)\<rparr> \<and>
        dlist h' before (free_list seg') (xs @ nb # ys) \<and>
        block \<notin> set (xs @ nb # ys) \<and>
        (\<forall>q. q \<noteq> nb \<and> q \<noteq> block \<and> q \<noteq> next_b b \<and> q \<noteq> prev b \<longrightarrow> h' q = h q)"
    if A: "MIN_SPLIT_SIZE + sizeof_block_header \<le> size_b b - sz \<and> nb \<noteq> NULL \<and>
       (\<forall>q. q = nb \<or> overlaps q nb \<longrightarrow> h q = None)"
  proof -
    from A have split: "MIN_SPLIT_SIZE + sizeof_block_header \<le> size_b b - sz"
      and nbn: "nb \<noteq> NULL" and clean: "\<forall>q. q = nb \<or> overlaps q nb \<longrightarrow> h q = None"
      by simp_all
    have hnb: "h nb = None" using clean by simp
    have fresh: "nb \<notin> set (xs @ block # ys)" using valid hnb by blast
    have nx: "next_b b \<noteq> NULL \<longrightarrow>
        h (next_b b) = Some (the (h (next_b b))) \<and> next_b b \<noteq> block"
    proof
      assume "next_b b \<noteq> NULL"
      then have "ys \<noteq> []" "next_b b = hd ys" using lk(2) by (auto split: if_splits)
      then have "next_b b \<in> set ys" by simp
      then show "h (next_b b) = Some (the (h (next_b b))) \<and> next_b b \<noteq> block"
        using valid[of "next_b b"] dist by auto
    qed
    have pv: "prev b \<noteq> NULL \<longrightarrow>
        h (prev b) = Some (the (h (prev b))) \<and> prev b \<noteq> block \<and> prev b \<noteq> next_b b"
    proof
      assume pn: "prev b \<noteq> NULL"
      show "h (prev b) = Some (the (h (prev b))) \<and> prev b \<noteq> block \<and> prev b \<noteq> next_b b"
      proof (cases "xs = []")
        case True
        then have e: "prev b = before" using lk(1) by simp
        with pn bef have v: "h before \<noteq> None" "before \<notin> set (xs @ block # ys)" by auto
        have "before \<noteq> next_b b"
        proof (cases "ys = []")
          case True then show ?thesis using lk(2) pn e by simp
        next
          case False
          then have "next_b b \<in> set ys" using lk(2) by simp
          then show ?thesis using v(2) by auto
        qed
        then show ?thesis using e v by auto
      next
        case False
        then have e: "prev b = last xs" "last xs \<in> set xs" using lk(1) by simp_all
        have "last xs \<noteq> next_b b"
        proof (cases "ys = []")
          case True then show ?thesis using lk(2) pn e by simp
        next
          case False
          then have "next_b b \<in> set ys" using lk(2) by simp
          then show ?thesis using e(2) dist by auto
        qed
        then show ?thesis using e valid[of "last xs"] dist by auto
      qed
    qed
    from take_block_split[OF nb bn b sz(1) split nbn clean nx pv, of seg]
    obtain h' where run: "take_block h seg block sz =
           Inr (h', if free_list seg = block then seg\<lparr>free_list := nb\<rparr> else seg)"
      and pt: "\<forall>q. h' q =
        (if q = nb
         then Some \<lparr>size_b = size_b b - sz - sizeof_block_header, next_b = next_b b,
                    prev = prev b, free = True, segment_id = segment_id b\<rparr>
         else if q = block then Some (b\<lparr>size_b := sz, next_b := nb, free := False\<rparr>)
         else if q = next_b b \<and> next_b b \<noteq> NULL
           then Some ((the (h (next_b b)))\<lparr>prev := nb\<rparr>)
         else if q = prev b \<and> prev b \<noteq> NULL
           then Some ((the (h (prev b)))\<lparr>next_b := nb\<rparr>)
         else h q)"
      by blast
    have bnb: "block \<noteq> nb" using hnb b by auto
    have head: "free_list seg = (if xs = [] then block else hd xs)"
      using list by (cases xs) (auto split: option.splits)
    have hd_ne: "xs \<noteq> [] \<Longrightarrow> hd xs \<noteq> block" using dist by (cases xs) auto
    have seg': "(if free_list seg = block then seg\<lparr>free_list := nb\<rparr> else seg) =
        seg\<lparr>free_list := (if xs = [] then nb else free_list seg)\<rparr>"
      using head hd_ne by auto
    have t1: "h' nb = Some \<lparr>size_b = size_b b - sz - sizeof_block_header, next_b = next_b b,
                       prev = prev b, free = True, segment_id = segment_id b\<rparr>"
      using pt by simp
    have t2: "h' block = Some (b\<lparr>size_b := sz, next_b := nb, free := False\<rparr>)"
      using pt bnb by simp
    have n': "next_b b \<noteq> NULL \<longrightarrow>
       (\<exists>n. h (next_b b) = Some n \<and> h' (next_b b) = Some (n\<lparr>prev := nb\<rparr>))"
    proof
      assume nn': "next_b b \<noteq> NULL"
      with nx have "h (next_b b) = Some (the (h (next_b b)))" "next_b b \<noteq> block" by auto
      moreover have "next_b b \<noteq> nb" using calculation hnb by auto
      ultimately show "\<exists>n. h (next_b b) = Some n \<and> h' (next_b b) = Some (n\<lparr>prev := nb\<rparr>)"
        using pt nn' by auto
    qed
    have p': "prev b \<noteq> NULL \<longrightarrow>
       (\<exists>c. h (prev b) = Some c \<and> h' (prev b) = Some (c\<lparr>next_b := nb\<rparr>))"
    proof
      assume pn: "prev b \<noteq> NULL"
      with pv have "h (prev b) = Some (the (h (prev b)))" "prev b \<noteq> block" "prev b \<noteq> next_b b"
        by auto
      moreover have "prev b \<noteq> nb" using calculation hnb by auto
      ultimately show "\<exists>c. h (prev b) = Some c \<and> h' (prev b) = Some (c\<lparr>next_b := nb\<rparr>)"
        using pt pn by auto
    qed
    have fr: "\<forall>q. q \<noteq> nb \<and> q \<noteq> block \<and> q \<noteq> next_b b \<and> q \<noteq> prev b \<longrightarrow> h' q = h q"
      using pt by simp
    have a': "before \<notin> set (xs @ block # ys)" using bef nn by auto
    have dl: "dlist h' before (if xs = [] then nb else free_list seg) (xs @ nb # ys)"
      by (rule dlist_replace[OF list dist fresh nbn a' b t1 _ _ n' p' fr]) simp_all
    have unl: "block \<notin> set (xs @ nb # ys)" using dist bnb by auto
    have un: "unat (size_b b - sz - sizeof_block_header) = unat (size_b b) - unat sz - 32"
    proof -
      have 1: "unat (size_b b - sz) = unat (size_b b) - unat sz"
        using sz(2) by (simp add: unat_sub)
      have "sizeof_block_header \<le> size_b b - sz"
        using split by (simp add: MIN_SPLIT_SIZE_def sizeof_block_header_def word_le_nat_alt)
      then have "unat (size_b b - sz - sizeof_block_header) = unat (size_b b - sz) - unat sizeof_block_header"
        by (simp add: unat_sub)
      then show ?thesis using 1 by (simp add: sizeof_block_header_def)
    qed
    show ?thesis
      apply (rule exI[of _ h'])
      apply (rule exI[of _ "seg\<lparr>free_list := (if xs = [] then nb else free_list seg)\<rparr>"])
      using run seg' t1 un t2 dl unl fr by simp
  qed
  from W S show ?thesis by blast
qed


theorem take_block_split_or_whole_witness:
  "dlist linked_blocks NULL (free_list linked_segment) ([4096] @ 8192 # [12288]) \<and>
   distinct ([4096] @ 8192 # [12288 :: ptr]) \<and>
   linked_blocks 8192 =
     Some \<lparr>size_b = 200, next_b = 12288, prev = 4096, free = True, segment_id = 0\<rparr> \<and>
   (0 :: size_t) < 100 \<and> (100 :: size_t) \<le> 200 \<and>
   MIN_SPLIT_SIZE + sizeof_block_header \<le> 200 - (100 :: size_t) \<and>
   \<not> isl (take_block linked_blocks linked_segment 8192 100) \<and>
   fst (projr (take_block linked_blocks linked_segment 8192 100)) 8324 =
     Some \<lparr>size_b = 68, next_b = 12288, prev = 4096, free = True, segment_id = 0\<rparr> \<and>
   fst (projr (take_block linked_blocks linked_segment 8192 100)) 8192 =
     Some \<lparr>size_b = 100, next_b = 8324, prev = 4096, free = False, segment_id = 0\<rparr> \<and>
   dlist (fst (projr (take_block linked_blocks linked_segment 8192 100))) NULL 4096
     [4096, 8324, 12288] \<and>
   \<not> MIN_SPLIT_SIZE + sizeof_block_header \<le> 200 - (150 :: size_t) \<and>
   fst (projr (take_block linked_blocks linked_segment 8192 150)) 8192 =
     Some \<lparr>size_b = 200, next_b = 12288, prev = 4096, free = False, segment_id = 0\<rparr> \<and>
   dlist (fst (projr (take_block linked_blocks linked_segment 8192 150))) NULL 4096
     [4096, 8192, 12288]"
proof -
  let ?b = "\<lparr>size_b = 200, next_b = 12288, prev = 4096, free = True, segment_id = 0\<rparr>"
  have l: "dlist linked_blocks NULL (free_list linked_segment) ([4096] @ 8192 # [12288])"
    by (simp add: linked_blocks_def linked_segment_def NULL_def)
  have d: "distinct ([4096] @ 8192 # [12288 :: ptr])" by simp
  have bf: "NULL = NULL \<or> (linked_blocks NULL \<noteq> None \<and> NULL \<notin> set ([4096] @ 8192 # [12288]))"
    by simp
  have b: "linked_blocks 8192 = Some ?b" by (simp add: linked_blocks_def)
  have s1: "(0 :: size_t) < 100" "(100 :: size_t) \<le> size_b ?b" by simp_all
  have s2: "(0 :: size_t) < 150" "(150 :: size_t) \<le> size_b ?b" by simp_all
  have n1: "(8324 :: ptr) = 8192 + sizeof_block_header + 100"
    by (simp add: sizeof_block_header_def)
  have c1: "MIN_SPLIT_SIZE + sizeof_block_header \<le> size_b ?b - 100 \<and> (8324 :: ptr) \<noteq> NULL \<and>
       (\<forall>q. q = 8324 \<or> overlaps q 8324 \<longrightarrow> linked_blocks q = None)"
    by (auto simp: MIN_SPLIT_SIZE_def sizeof_block_header_def NULL_def linked_blocks_def overlaps_def)
  have c2: "\<not> MIN_SPLIT_SIZE + sizeof_block_header \<le> size_b ?b - 150"
    by (simp add: MIN_SPLIT_SIZE_def sizeof_block_header_def)
  from take_block_split_or_whole[OF l d bf b s1 n1] c1
  obtain h' seg' where r1: "take_block linked_blocks linked_segment 8192 100 = Inr (h', seg')"
    and t1: "h' 8324 = Some \<lparr>size_b = size_b ?b - 100 - sizeof_block_header, next_b = next_b ?b,
                       prev = prev ?b, free = True, segment_id = segment_id ?b\<rparr>"
    and t2: "h' 8192 = Some (?b\<lparr>size_b := 100, next_b := 8324, free := False\<rparr>)"
    and sg: "seg' = linked_segment\<lparr>free_list := (if [4096 :: ptr] = [] then 8324 else free_list linked_segment)\<rparr>"
    and dl: "dlist h' NULL (free_list seg') ([4096] @ 8324 # [12288])"
    by blast
  have n2: "(8192 + sizeof_block_header + 150 :: ptr) = 8192 + sizeof_block_header + 150" by simp
  from take_block_split_or_whole[OF l d bf b s2 n2] c2
  have r2: "take_block linked_blocks linked_segment 8192 150 =
       Inr (linked_blocks(8192 \<mapsto> ?b\<lparr>free := False\<rparr>), linked_segment)"
    and dl2: "dlist (linked_blocks(8192 \<mapsto> ?b\<lparr>free := False\<rparr>)) NULL (free_list linked_segment)
        ([4096] @ 8192 # [12288])"
    by blast+
  have fl: "free_list seg' = 4096" using sg by (simp add: linked_segment_def)
  have fl2: "free_list linked_segment = 4096" by (simp add: linked_segment_def)
  have A: "\<not> isl (take_block linked_blocks linked_segment 8192 100) \<and>
   fst (projr (take_block linked_blocks linked_segment 8192 100)) 8324 =
     Some \<lparr>size_b = 68, next_b = 12288, prev = 4096, free = True, segment_id = 0\<rparr> \<and>
   fst (projr (take_block linked_blocks linked_segment 8192 100)) 8192 =
     Some \<lparr>size_b = 100, next_b = 8324, prev = 4096, free = False, segment_id = 0\<rparr> \<and>
   dlist (fst (projr (take_block linked_blocks linked_segment 8192 100))) NULL 4096
     [4096, 8324, 12288]"
    unfolding r1 using t1 t2 dl fl by (simp add: sizeof_block_header_def)
  have B: "fst (projr (take_block linked_blocks linked_segment 8192 150)) 8192 =
     Some \<lparr>size_b = 200, next_b = 12288, prev = 4096, free = False, segment_id = 0\<rparr> \<and>
   dlist (fst (projr (take_block linked_blocks linked_segment 8192 150))) NULL 4096
     [4096, 8192, 12288]"
    unfolding r2 using dl2 fl2 by simp
  have C: "MIN_SPLIT_SIZE + sizeof_block_header \<le> 200 - (100 :: size_t)"
      "\<not> MIN_SPLIT_SIZE + sizeof_block_header \<le> 200 - (150 :: size_t)"
    by (simp_all add: MIN_SPLIT_SIZE_def sizeof_block_header_def)
  from l d b A B C show ?thesis by simp
qed

section \<open>Concrete runs\<close>


lemma coalesce_run_snap:
  "snap [4096, 4192, 4288]
     (run 2 env0 [Malloc 64, Malloc 64, Malloc 64, Malloc 64, Malloc 64, Free 0, Free 4] ([], fresh)) =
   Inr \<lparr>returned = [4128, 5247008, 10489888, 15732768, 4224],
        headers =
          [(4096, Some \<lparr>size_b = 64, next_b = 4192, prev = NULL, free = True, segment_id = 0\<rparr>),
           (4192, Some \<lparr>size_b = 5242752, next_b = NULL, prev = NULL, free = True, segment_id = 0\<rparr>),
           (4288, Some \<lparr>size_b = 5242656, next_b = NULL, prev = NULL, free = True, segment_id = 0\<rparr>)],
        heads = [4288, 5247072, 10489952, 15732832, 20975616],
        blocks = [Some [4096, 4192], Some [5246976, 5247072], Some [10489856, 10489952],
                  Some [15732736, 15732832], Some [20975616]],
        waits = []\<rparr>"
  by code_simp

lemma overflow_run_snap:
  "snap [5246912]
     (run 2 env0 [Malloc 5242784, Malloc 64, Malloc 64, Malloc 64, Malloc (- 16)] ([], fresh)) =
   Inr \<lparr>returned = [4128, 5247008, 10489888, 15732768, 5246944],
        headers =
          [(5246912, Some \<lparr>size_b = 32, next_b = NULL, prev = NULL, free = False, segment_id = 0\<rparr>)],
        heads = [5246912, 5247072, 10489952, 15732832, 20975616],
        blocks = [Some [4096, 5246912], Some [5246976, 5247072], Some [10489856, 10489952],
                  Some [15732736, 15732832], Some [20975616]],
        waits = []\<rparr>"
  by code_simp

lemma wait_run_snap:
  "snap [] (run 2 env0 [Malloc 90000000] ([], fresh)) =
   Inr \<lparr>returned = [NULL], headers = [],
        heads = [4096, 5246976, 10489856, 15732736, 20975616],
        blocks = [Some [4096], Some [5246976], Some [10489856], Some [15732736], Some [20975616]],
        waits = [\<lparr>tv_sec = 1000, tv_nsec = 0\<rparr>]\<rparr>"
  by code_simp

lemma teardown_run:
  "run 2 env0 [Malloc 128, Free 0, Teardown, Malloc 128] ([], fresh) = Inl UseAfterFree"
  by code_simp

lemma nosplit_run_snap:
  "snap [4096] (run 2 env0 [Malloc 5242800] ([], fresh)) =
   Inr \<lparr>returned = [4128],
        headers =
          [(4096, Some \<lparr>size_b = 5242848, next_b = NULL, prev = NULL, free = False, segment_id = 0\<rparr>)],
        heads = [4096, 5246976, 10489856, 15732736, 20975616],
        blocks = [Some [4096], Some [5246976], Some [10489856], Some [15732736], Some [20975616]],
        waits = []\<rparr>"
  by code_simp


section \<open>A block taken whole stays in the list (claim C4)\<close>

text \<open>
  The last part of claim C4 as the spec words it, that a block taken whole is unlinked,
  fails: after a first \<open>my_malloc(5242800)\<close> the residual of 48 bytes is too small for a
  split, the block at 4096 is marked allocated, and it is still the head, and the only
  element, of the free list of segment 0.
\<close>

theorem whole_block_stays_listed:
  "snap [4096] (run 2 env0 [Malloc 5242800] ([], fresh)) =
   Inr \<lparr>returned = [4128],
        headers =
          [(4096, Some \<lparr>size_b = 5242848, next_b = NULL, prev = NULL, free = False, segment_id = 0\<rparr>)],
        heads = [4096, 5246976, 10489856, 15732736, 20975616],
        blocks = [Some [4096], Some [5246976], Some [10489856], Some [15732736], Some [20975616]],
        waits = []\<rparr> \<and>
   \<not> MIN_SPLIT_SIZE + sizeof_block_header \<le> 5242848 - (5242800 :: size_t) \<and>
   chain (memory nosplit_state) (free_list (the (segments nosplit_state) ! 0)) [4096]"
  by (intro conjI, rule nosplit_run_snap)
    (simp_all add: MIN_SPLIT_SIZE_def sizeof_block_header_def nosplit_facts NULL_def)


section \<open>Live allocations can overlap (claim C1)\<close>

text \<open>
  Claim C1 fails on a request that wraps the footprint. After \<open>my_malloc(5242784)\<close> the
  free tail of segment 0 is a block of 32 bytes at 5246912. Three more calls take the
  round-robin counter back to segment 0. Then \<open>my_malloc(2^64 - 16)\<close> searches for a
  footprint of 16 bytes, takes that 32-byte block whole and returns 5246944: the bytes
  requested from there do not fit in the backing region \<open>[4096, 4096 + C)\<close>, and
  they cover the 64 bytes at 5247008 that the second call handed out and that are live.
\<close>

theorem overflow_payload_overlaps:
  "snap [5246912]
     (run 2 env0 [Malloc 5242784, Malloc 64, Malloc 64, Malloc 64, Malloc (- 16)] ([], fresh)) =
   Inr \<lparr>returned = [4128, 5247008, 10489888, 15732768, 5246944],
        headers =
          [(5246912, Some \<lparr>size_b = 32, next_b = NULL, prev = NULL, free = False, segment_id = 0\<rparr>)],
        heads = [5246912, 5247072, 10489952, 15732832, 20975616],
        blocks = [Some [4096, 5246912], Some [5246976, 5247072], Some [10489856, 10489952],
                  Some [15732736, 15732832], Some [20975616]],
        waits = []\<rparr> \<and>
   payload_overlap 5246944 (- 16) 5247008 64 \<and>
   \<not> in_region 4096 5246944 (- 16)"
  by (intro conjI, rule overflow_run_snap)
    (simp_all add: payload_overlap_def in_region_def TOTAL_SIZE_def)

section \<open>Adjacent free blocks stay apart (claim C3)\<close>

text \<open>
  Claim C3 fails after two releases. Five calls \<open>my_malloc(64)\<close> put two blocks into
  segment 0, at 4096 and at 4192. Releasing the first finds its right neighbour allocated.
  Releasing the second merges it with the free tail to its right, but its \<open>prev\<close> link is
  null, so the free block to its left is not looked at: the blocks at 4096 and
  \<open>4096 + 32 + 64 = 4192\<close> are physically adjacent and both free.
\<close>

theorem adjacent_free_after_release:
  "snap [4096, 4192, 4288]
     (run 2 env0 [Malloc 64, Malloc 64, Malloc 64, Malloc 64, Malloc 64, Free 0, Free 4] ([], fresh)) =
   Inr \<lparr>returned = [4128, 5247008, 10489888, 15732768, 4224],
        headers =
          [(4096, Some \<lparr>size_b = 64, next_b = 4192, prev = NULL, free = True, segment_id = 0\<rparr>),
           (4192, Some \<lparr>size_b = 5242752, next_b = NULL, prev = NULL, free = True, segment_id = 0\<rparr>),
           (4288, Some \<lparr>size_b = 5242656, next_b = NULL, prev = NULL, free = True, segment_id = 0\<rparr>)],
        heads = [4288, 5247072, 10489952, 15732832, 20975616],
        blocks = [Some [4096, 4192], Some [5246976, 5247072], Some [10489856, 10489952],
                  Some [15732736, 15732832], Some [20975616]],
        waits = []\<rparr> \<and>
   4096 + sizeof_block_header + 64 = (4192 :: ptr)"
  by (intro conjI, rule coalesce_run_snap) (simp add: sizeof_block_header_def)

section \<open>No re-initialization after teardown (claim C5)\<close>

lemma my_malloc_after_teardown:
  assumes "initialized st" and "free_base_memory st = Inr st'" and "0 < sz"
  shows "my_malloc fuel e st' sz = Inl UseAfterFree"
proof -
  have "st' = st\<lparr>released := True\<rparr>"
    using assms(2)
    by (auto simp: free_base_memory_def segment_array_def split: if_splits option.splits)
  then show ?thesis
    using assms(1,3) by (simp add: my_malloc_def Let_def segment_array_def)
qed

text \<open>
  Claim C5 fails: \<open>free_base_memory\<close> leaves \<open>initialized\<close> set, so the next \<open>my_malloc\<close> skips
  \<open>initialize_allocator\<close> and reads the segment array that was handed back to the host.
\<close>

theorem malloc_after_teardown_uses_freed_memory:
  "run 2 env0 [Malloc 128, Free 0, Teardown, Malloc 128] ([], fresh) = Inl UseAfterFree"
  by (rule teardown_run)

section \<open>The deadline of the timed wait (claim C6)\<close>

lemma time_t_of_MAX_WAIT_TIME: "time_t_of_double MAX_WAIT_TIME = 0"
  by (simp add: time_t_of_double_def MAX_WAIT_TIME_def floor_eq_iff)

text \<open>
  Claim C6 fails: \<open>(time_t) MAX_WAIT_TIME\<close> is 0, so the deadline handed to
  \<open>pthread_cond_timedwait\<close> is the start time itself, in whole seconds. In the run a request
  of 90000000 bytes misses in segment 0 and in the large segment, and the one timed wait
  made has the deadline 1000, the value of the clock at its start.
\<close>

theorem wait_deadline_is_start_time:
  "wait_deadline start_time = \<lparr>tv_sec = start_time, tv_nsec = 0\<rparr> \<and>
   snap [] (run 2 env0 [Malloc 90000000] ([], fresh)) =
   Inr \<lparr>returned = [NULL], headers = [],
        heads = [4096, 5246976, 10489856, 15732736, 20975616],
        blocks = [Some [4096], Some [5246976], Some [10489856], Some [15732736], Some [20975616]],
        waits = [\<lparr>tv_sec = 1000, tv_nsec = 0\<rparr>]\<rparr>"
  by (intro conjI, simp add: wait_deadline_def time_t_of_MAX_WAIT_TIME) (rule wait_run_snap)

section \<open>An oversize request is served (claim C9)\<close>

text \<open>
  Claim C9 fails on a request that wraps the footprint: in the run of claim C1 the last
  call asks for \<open>2^64 - 16 > C\<close> bytes and returns the non-null pointer 5246944.
\<close>

theorem oversize_request_served:
  "of_int TOTAL_SIZE < (- 16 :: size_t) \<and>
   map_sum id returned
     (snap [5246912]
        (run 2 env0 [Malloc 5242784, Malloc 64, Malloc 64, Malloc 64, Malloc (- 16)] ([], fresh))) =
     Inr [4128, 5247008, 10489888, 15732768, 5246944] \<and>
   (5246944 :: ptr) \<noteq> NULL"
  unfolding overflow_run_snap by (simp add: TOTAL_SIZE_def NULL_def)


section \<open>The heap keeps its shape\<close>























































section \<open>The free list of a segment (claim C2)\<close>




end
